theory Spec2Isabelle
  imports Main "HOL-Library.AList" "HOL-Library.Multiset"
begin

section \<open>The configuration tree (protos/common, as read by config.go)\<close>

text \<open>
  \<^verbatim>\<open>cb.ConfigGroup\<close> holds three Go maps. Go enumerates a map in an unspecified order, so
  each map is an association list whose order is the order in which \<^verbatim>\<open>range\<close> yields the
  entries in the run at hand; a Go map has distinct keys. A byte slice is a \<open>string\<close>
  (a \<open>char\<close> is a byte). The payload of a policy is opaque to config.go.
\<close>

type_synonym bytes = string

datatype configValue = ConfigValue (Value: bytes)

datatype configPolicy = ConfigPolicy (Policy: bytes)

datatype configGroup =
  ConfigGroup (Groups: "(string \<times> configGroup) list")
              (Values: "(string \<times> configValue) list")
              (Policies: "(string \<times> configPolicy) list")

text \<open>\<^verbatim>\<open>cb.NewConfigGroup()\<close>: a group with three empty maps.\<close>

definition NewConfigGroup :: configGroup where
  "NewConfigGroup = ConfigGroup [] [] []"

text \<open>\<^verbatim>\<open>proto.Message\<close>, the deserialized form of a value, is opaque as well.\<close>

type_synonym message = bytes

record configGroupWrapper =
  group :: configGroup
  deserializedValues :: "string \<rightharpoonup> message"

definition newConfigGroupWrapper :: "configGroup \<Rightarrow> configGroupWrapper" where
  "newConfigGroupWrapper g = \<lparr>group = g, deserializedValues = Map.empty\<rparr>"

section \<open>Errors\<close>

text \<open>
  config.go builds one error of its own, the \<^verbatim>\<open>fmt.Errorf("Programming error, did not
  return as many handlers as groups %d vs %d vs %d", ...)\<close> of line 99; its text is fixed
  by the three numbers. Every other error is whatever value a collaborator returned.
  \<open>IndexOutOfRange\<close> stands for the run-time panic of a slice read out of range.
\<close>

datatype error =
  ProgrammingError nat nat nat
| CollaboratorError string
| IndexOutOfRange

section \<open>The collaborators\<close>

text \<open>
  \<^verbatim>\<open>config.ValueProposer\<close>, \<^verbatim>\<open>policies.Proposer\<close>, \<^verbatim>\<open>config.ValueDeserializer\<close> and
  \<^verbatim>\<open>api.Transactional\<close> are interfaces implemented outside config.go. A handler is a
  reference (the Go interface value); what a call on it does is a parameter of the model:
  a function of the state \<open>'s\<close> of the collaborators, returning the call's result and the
  new state. \<open>'tx\<close> is the type behind \<^verbatim>\<open>tx interface{}\<close>. References are never nil.
\<close>

type_synonym handlerRef = nat
type_synonym deserializerRef = nat

record ('s, 'tx) collaborators =
  BeginValueProposals ::
    "handlerRef \<Rightarrow> 'tx \<Rightarrow> string list \<Rightarrow> 's \<Rightarrow> (error + deserializerRef \<times> handlerRef list) \<times> 's"
  BeginPolicyProposals ::
    "handlerRef \<Rightarrow> 'tx \<Rightarrow> string list \<Rightarrow> 's \<Rightarrow> (error + handlerRef list) \<times> 's"
  Deserialize :: "deserializerRef \<Rightarrow> string \<Rightarrow> bytes \<Rightarrow> 's \<Rightarrow> (error + message) \<times> 's"
  ProposePolicy :: "handlerRef \<Rightarrow> 'tx \<Rightarrow> string \<Rightarrow> configPolicy \<Rightarrow> 's \<Rightarrow> error option \<times> 's"
  PreCommit :: "handlerRef \<Rightarrow> 'tx \<Rightarrow> 's \<Rightarrow> error option \<times> 's"
  CommitProposals :: "handlerRef \<Rightarrow> 'tx \<Rightarrow> 's \<Rightarrow> 's"
  RollbackProposals :: "handlerRef \<Rightarrow> 'tx \<Rightarrow> 's \<Rightarrow> 's"

text \<open>
  Every call on a collaborator is logged, in the order of the calls, with its arguments
  and, where the call can fail, the error it returned (\<open>None\<close> for \<^verbatim>\<open>nil\<close>).
\<close>

datatype 'tx event =
  Call_BeginValueProposals handlerRef 'tx "string list" "error option"
| Call_BeginPolicyProposals handlerRef 'tx "string list" "error option"
| Call_Deserialize deserializerRef string bytes "error option"
| Call_ProposePolicy handlerRef 'tx string configPolicy "error option"
| Call_PreCommit handlerRef 'tx "error option"
| Call_CommitProposals handlerRef 'tx
| Call_RollbackProposals handlerRef 'tx

fun isCommit :: "'tx event \<Rightarrow> bool" where
  "isCommit (Call_CommitProposals h t) = True"
| "isCommit e = False"

fun isRollback :: "'tx event \<Rightarrow> bool" where
  "isRollback (Call_RollbackProposals h t) = True"
| "isRollback e = False"

fun isPreCommit :: "'tx event \<Rightarrow> bool" where
  "isPreCommit (Call_PreCommit h t r) = True"
| "isPreCommit e = False"

text \<open>The error a logged call returned, if it returned one.\<close>

fun returnedError :: "'tx event \<Rightarrow> error option" where
  "returnedError (Call_BeginValueProposals h t ns r) = r"
| "returnedError (Call_BeginPolicyProposals h t ns r) = r"
| "returnedError (Call_Deserialize d k v r) = r"
| "returnedError (Call_ProposePolicy h t k p r) = r"
| "returnedError (Call_PreCommit h t r) = r"
| "returnedError (Call_CommitProposals h t) = None"
| "returnedError (Call_RollbackProposals h t) = None"

text \<open>The transaction context a logged call received (\<^verbatim>\<open>Deserialize\<close> takes none).\<close>

fun eventTx :: "'tx event \<Rightarrow> 'tx option" where
  "eventTx (Call_BeginValueProposals h t ns r) = Some t"
| "eventTx (Call_BeginPolicyProposals h t ns r) = Some t"
| "eventTx (Call_Deserialize d k v r) = None"
| "eventTx (Call_ProposePolicy h t k p r) = Some t"
| "eventTx (Call_PreCommit h t r) = Some t"
| "eventTx (Call_CommitProposals h t) = Some t"
| "eventTx (Call_RollbackProposals h t) = Some t"

section \<open>configResult and its three cascades (config.go, lines 42 to 73)\<close>

datatype 'tx configResult =
  ConfigResult (tx: 'tx) (handler: handlerRef) (policyHandler: handlerRef)
               (subResults: "'tx configResult list")

text \<open>
  \<^verbatim>\<open>preCommit\<close>: the sub-results in their stored order, stopping at the first error, then
  the node's own value handler. Each function returns what the Go method returns, the
  state of the collaborators afterwards, and the calls it made.
\<close>

fun preCommit ::
    "('s, 'tx) collaborators \<Rightarrow> 'tx configResult \<Rightarrow> 's \<Rightarrow> error option \<times> 's \<times> 'tx event list"
  and preCommit_subResults ::
    "('s, 'tx) collaborators \<Rightarrow> 'tx configResult list \<Rightarrow> 's \<Rightarrow> error option \<times> 's \<times> 'tx event list"
where
  "preCommit env (ConfigResult t h p subs) s =
     (case preCommit_subResults env subs s of
        (Some err, s1, es1) \<Rightarrow> (Some err, s1, es1)
      | (None, s1, es1) \<Rightarrow>
          (case PreCommit env h t s1 of
             (r, s2) \<Rightarrow> (r, s2, es1 @ [Call_PreCommit h t r])))"
| "preCommit_subResults env [] s = (None, s, [])"
| "preCommit_subResults env (subResult # rest) s =
     (case preCommit env subResult s of
        (Some err, s1, es1) \<Rightarrow> (Some err, s1, es1)
      | (None, s1, es1) \<Rightarrow>
          (case preCommit_subResults env rest s1 of
             (r, s2, es2) \<Rightarrow> (r, s2, es1 @ es2)))"

fun commit ::
    "('s, 'tx) collaborators \<Rightarrow> 'tx configResult \<Rightarrow> 's \<Rightarrow> 's \<times> 'tx event list"
  and commit_subResults ::
    "('s, 'tx) collaborators \<Rightarrow> 'tx configResult list \<Rightarrow> 's \<Rightarrow> 's \<times> 'tx event list"
where
  "commit env (ConfigResult t h p subs) s =
     (case commit_subResults env subs s of
        (s1, es1) \<Rightarrow>
          (CommitProposals env p t (CommitProposals env h t s1),
           es1 @ [Call_CommitProposals h t, Call_CommitProposals p t]))"
| "commit_subResults env [] s = (s, [])"
| "commit_subResults env (subResult # rest) s =
     (case commit env subResult s of
        (s1, es1) \<Rightarrow>
          (case commit_subResults env rest s1 of
             (s2, es2) \<Rightarrow> (s2, es1 @ es2)))"

fun rollback ::
    "('s, 'tx) collaborators \<Rightarrow> 'tx configResult \<Rightarrow> 's \<Rightarrow> 's \<times> 'tx event list"
  and rollback_subResults ::
    "('s, 'tx) collaborators \<Rightarrow> 'tx configResult list \<Rightarrow> 's \<Rightarrow> 's \<times> 'tx event list"
where
  "rollback env (ConfigResult t h p subs) s =
     (case rollback_subResults env subs s of
        (s1, es1) \<Rightarrow>
          (RollbackProposals env p t (RollbackProposals env h t s1),
           es1 @ [Call_RollbackProposals h t, Call_RollbackProposals p t]))"
| "rollback_subResults env [] s = (s, [])"
| "rollback_subResults env (subResult # rest) s =
     (case rollback env subResult s of
        (s1, es1) \<Rightarrow>
          (case rollback_subResults env rest s1 of
             (s2, es2) \<Rightarrow> (s2, es1 @ es2)))"

section \<open>proposeGroup (config.go, lines 79 to 141)\<close>

text \<open>
  The loop over \<^verbatim>\<open>group.Values\<close> (lines 118 to 125). A failing \<^verbatim>\<open>Deserialize\<close> rolls the
  result back and returns the error; otherwise the message is cached in the wrapper.
\<close>

fun proposeGroup_values ::
    "('s, 'tx) collaborators \<Rightarrow> deserializerRef \<Rightarrow> (string \<times> configValue) list \<Rightarrow>
     'tx configResult \<Rightarrow> configGroupWrapper \<Rightarrow> 's \<Rightarrow>
     (error + configGroupWrapper) \<times> 's \<times> 'tx event list"
where
  "proposeGroup_values env valueDeserializer [] result w s = (Inr w, s, [])"
| "proposeGroup_values env valueDeserializer ((key, val) # rest) result w s =
     (case Deserialize env valueDeserializer key (Value val) s of
        (Inl err, s1) \<Rightarrow>
          (case rollback env result s1 of
             (s2, es2) \<Rightarrow>
               (Inl err, s2, Call_Deserialize valueDeserializer key (Value val) (Some err) # es2))
      | (Inr msg, s1) \<Rightarrow>
          (case proposeGroup_values env valueDeserializer rest result
                  (w\<lparr>deserializedValues := (deserializedValues w)(key \<mapsto> msg)\<rparr>) s1 of
             (r, s2, es2) \<Rightarrow>
               (r, s2, Call_Deserialize valueDeserializer key (Value val) None # es2)))"

text \<open>The loop over \<^verbatim>\<open>group.Policies\<close> (lines 127 to 132).\<close>

fun proposeGroup_policies ::
    "('s, 'tx) collaborators \<Rightarrow> 'tx \<Rightarrow> handlerRef \<Rightarrow> (string \<times> configPolicy) list \<Rightarrow>
     'tx configResult \<Rightarrow> 's \<Rightarrow> error option \<times> 's \<times> 'tx event list"
where
  "proposeGroup_policies env t ph [] result s = (None, s, [])"
| "proposeGroup_policies env t ph ((key, policy) # rest) result s =
     (case ProposePolicy env ph t key policy s of
        (Some err, s1) \<Rightarrow>
          (case rollback env result s1 of
             (s2, es2) \<Rightarrow>
               (Some err, s2, Call_ProposePolicy ph t key policy (Some err) # es2))
      | (None, s1) \<Rightarrow>
          (case proposeGroup_policies env t ph rest result s1 of
             (r, s2, es2) \<Rightarrow>
               (r, s2, Call_ProposePolicy ph t key policy None # es2)))"

text \<open>
  Lines 134 to 140: the \<^verbatim>\<open>preCommit\<close> cascade over the assembled result, rolled back
  when it fails.
\<close>

definition proposeGroup_preCommit ::
    "('s, 'tx) collaborators \<Rightarrow> 'tx configResult \<Rightarrow> 's \<Rightarrow>
     (error + 'tx configResult) \<times> 's \<times> 'tx event list"
where
  "proposeGroup_preCommit env result s =
     (case preCommit env result s of
        (Some err, s1, es1) \<Rightarrow>
          (case rollback env result s1 of (s2, es2) \<Rightarrow> (Inl err, s2, es1 @ es2))
      | (None, s1, es1) \<Rightarrow> (Inr result, s1, es1))"

text \<open>
  Lines 118 to 140 together: what \<^verbatim>\<open>proposeGroup\<close> does once the loop over the
  sub-groups has finished.
\<close>

definition proposeGroup_own ::
    "('s, 'tx) collaborators \<Rightarrow> 'tx \<Rightarrow> configGroupWrapper \<Rightarrow> deserializerRef \<Rightarrow> handlerRef \<Rightarrow>
     'tx configResult \<Rightarrow> 's \<Rightarrow> (error + 'tx configResult) \<times> 's \<times> 'tx event list"
where
  "proposeGroup_own env t w valueDeserializer ph result s =
     (case proposeGroup_values env valueDeserializer (Values (group w)) result w s of
        (Inl err, s1, es1) \<Rightarrow> (Inl err, s1, es1)
      | (Inr w1, s1, es1) \<Rightarrow>
          (case proposeGroup_policies env t ph (Policies (group w)) result s1 of
             (Some err, s2, es2) \<Rightarrow> (Inl err, s2, es1 @ es2)
           | (None, s2, es2) \<Rightarrow>
               (case proposeGroup_preCommit env result s2 of
                  (r, s3, es3) \<Rightarrow> (r, s3, es1 @ es2 @ es3))))"

text \<open>
  \<^verbatim>\<open>proposeGroup\<close> itself, with the loop of lines 109 to 116 as \<open>proposeGroup_subGroups\<close>.
  \<^verbatim>\<open>subGroups\<close> is the list of the keys of \<^verbatim>\<open>group.Groups\<close> in the order of enumeration, and
  \<^verbatim>\<open>group.Groups[subGroup]\<close> is the entry the key came from. The loop reads
  \<^verbatim>\<open>subHandlers[i]\<close> and \<^verbatim>\<open>subPolicyHandlers[i]\<close> by walking the three lists together; after
  the check of line 98 they are as long as \<^verbatim>\<open>subGroups\<close>, and an index out of range, which
  panics in Go, is the error \<open>IndexOutOfRange\<close>. The recursion ends because a sub-group is
  smaller than its group (\<open>size_Groups\<close>). The configManager is read for the debug log of
  line 87 only, which is not part of the model. The parameters \<^verbatim>\<open>tx\<close>, \<^verbatim>\<open>handler\<close> and
  \<^verbatim>\<open>policyHandler\<close> are written \<open>t\<close>, \<open>h\<close> and \<open>ph\<close>, the names being those of the fields of
  \<^verbatim>\<open>configResult\<close>. The cache \<^verbatim>\<open>deserializedValues\<close> that the loop over the values fills is not
  read again in config.go, and the wrapper is not returned.
\<close>

lemma size_Groups: "size_list (\<lambda>x. size (snd x)) (Groups g) < size g"
proof (cases g)
  case (ConfigGroup gs vs ps)
  have "size_list (\<lambda>x. size (snd x)) gs \<le> size_list (size_prod (\<lambda>x. 0) size) gs"
    by (induction gs) auto
  with ConfigGroup show ?thesis by simp
qed

function proposeGroup ::
    "('s, 'tx) collaborators \<Rightarrow> 'tx \<Rightarrow> string \<Rightarrow> configGroupWrapper \<Rightarrow> handlerRef \<Rightarrow> handlerRef \<Rightarrow>
     's \<Rightarrow> (error + 'tx configResult) \<times> 's \<times> 'tx event list"
  and proposeGroup_subGroups ::
    "('s, 'tx) collaborators \<Rightarrow> 'tx \<Rightarrow> string \<Rightarrow> (string \<times> configGroup) list \<Rightarrow>
     handlerRef list \<Rightarrow> handlerRef list \<Rightarrow> 'tx configResult \<Rightarrow>
     's \<Rightarrow> (error + 'tx configResult) \<times> 's \<times> 'tx event list"
where
  "proposeGroup env t name w h ph s =
     (let subGroups = map fst (Groups (group w)) in
      case BeginValueProposals env h t subGroups s of
        (Inl err, s1) \<Rightarrow>
          (Inl err, s1, [Call_BeginValueProposals h t subGroups (Some err)])
      | (Inr (valueDeserializer, subHandlers), s1) \<Rightarrow>
          (case BeginPolicyProposals env ph t subGroups s1 of
             (Inl err, s2) \<Rightarrow>
               (Inl err, s2,
                [Call_BeginValueProposals h t subGroups None,
                 Call_BeginPolicyProposals ph t subGroups (Some err)])
           | (Inr subPolicyHandlers, s2) \<Rightarrow>
               (let begun = [Call_BeginValueProposals h t subGroups None,
                             Call_BeginPolicyProposals ph t subGroups None] in
                if length subHandlers \<noteq> length subGroups \<or>
                   length subPolicyHandlers \<noteq> length subGroups
                then (Inl (ProgrammingError (length subHandlers) (length subGroups)
                             (length subPolicyHandlers)), s2, begun)
                else
                  (case proposeGroup_subGroups env t name (Groups (group w)) subHandlers
                          subPolicyHandlers (ConfigResult t h ph []) s2 of
                     (Inl err, s3, es3) \<Rightarrow> (Inl err, s3, begun @ es3)
                   | (Inr result, s3, es3) \<Rightarrow>
                       (case proposeGroup_own env t w valueDeserializer ph result s3 of
                          (r, s4, es4) \<Rightarrow> (r, s4, begun @ es3 @ es4))))))"
| "proposeGroup_subGroups env t name [] subHandlers subPolicyHandlers result s =
     (Inr result, s, [])"
| "proposeGroup_subGroups env t name ((subGroup, g) # rest) subHandlers subPolicyHandlers result s =
     (case (subHandlers, subPolicyHandlers) of
        (h # hs, ph # phs) \<Rightarrow>
          (case proposeGroup env t (name @ ''/'' @ subGroup) (newConfigGroupWrapper g) h ph s of
             (Inl err, s1, es1) \<Rightarrow>
               (case rollback env result s1 of (s2, es2) \<Rightarrow> (Inl err, s2, es1 @ es2))
           | (Inr subResult, s1, es1) \<Rightarrow>
               (case proposeGroup_subGroups env t name rest hs phs
                       (ConfigResult (tx result) (handler result) (policyHandler result)
                          (subResults result @ [subResult])) s1 of
                  (r, s2, es2) \<Rightarrow> (r, s2, es1 @ es2)))
      | _ \<Rightarrow> (Inl IndexOutOfRange, s, []))"
  by pat_completeness auto

termination
  by (relation "measure (case_sum
        (\<lambda>(env, t, name, w, h, ph, s). size (group w))
        (\<lambda>(env, t, name, gs, hs, phs, result, s). size_list (\<lambda>x. size (snd x)) gs))")
     (auto simp: newConfigGroupWrapper_def size_Groups)

section \<open>processConfig (config.go, lines 143 to 152)\<close>

text \<open>
  Of the configManager, \<^verbatim>\<open>processConfig\<close> reads the two proposers of its initializer. The
  constant \<^verbatim>\<open>RootGroupKey\<close> is declared elsewhere in the package and is a parameter here.
  \<^verbatim>\<open>helperGroup.Groups[RootGroupKey] = channelGroup\<close> is an update of the (empty) map of a
  new group. The transaction context is \<^verbatim>\<open>channelGroup\<close> itself.
\<close>

record configManager =
  initializer_ValueProposer :: handlerRef
  initializer_PolicyProposer :: handlerRef

definition helperGroup :: "string \<Rightarrow> configGroup \<Rightarrow> configGroup" where
  "helperGroup RootGroupKey channelGroup =
     ConfigGroup (AList.update RootGroupKey channelGroup (Groups NewConfigGroup))
       (Values NewConfigGroup) (Policies NewConfigGroup)"

definition processConfig ::
    "('s, configGroup) collaborators \<Rightarrow> string \<Rightarrow> configManager \<Rightarrow> configGroup \<Rightarrow>
     's \<Rightarrow> (error + configGroup configResult) \<times> 's \<times> configGroup event list"
where
  "processConfig env RootGroupKey cm channelGroup s =
     (case proposeGroup env channelGroup [] (newConfigGroupWrapper (helperGroup RootGroupKey channelGroup))
             (initializer_ValueProposer cm) (initializer_PolicyProposer cm) s of
        (Inl err, s1, es1) \<Rightarrow> (Inl err, s1, es1)
      | (Inr groupResult, s1, es1) \<Rightarrow> (Inr groupResult, s1, es1))"

section \<open>Post-order listings of a result tree\<close>

text \<open>
  The post-order cascade as the specification words it: the calls of every sub-result,
  in the stored order, then the node's own calls. \<open>own\<close> gives the calls of one node.
\<close>

fun postOrder :: "('tx configResult \<Rightarrow> 'tx event list) \<Rightarrow> 'tx configResult \<Rightarrow> 'tx event list" where
  "postOrder own (ConfigResult t h p subs) =
     concat (map (postOrder own) subs) @ own (ConfigResult t h p subs)"

definition ownCommit :: "'tx configResult \<Rightarrow> 'tx event list" where
  "ownCommit r = [Call_CommitProposals (handler r) (tx r), Call_CommitProposals (policyHandler r) (tx r)]"

definition ownRollback :: "'tx configResult \<Rightarrow> 'tx event list" where
  "ownRollback r = [Call_RollbackProposals (handler r) (tx r), Call_RollbackProposals (policyHandler r) (tx r)]"

definition ownPreCommit :: "'tx configResult \<Rightarrow> 'tx event list" where
  "ownPreCommit r = [Call_PreCommit (handler r) (tx r) None]"

text \<open>
  The shape of a tree, without names and payloads: nesting and order of the children.
\<close>

datatype shape = Shape "shape list"

fun shapeNodes :: "shape \<Rightarrow> nat" where
  "shapeNodes (Shape ss) = Suc (sum_list (map shapeNodes ss))"

fun resultShape :: "'tx configResult \<Rightarrow> shape" where
  "resultShape (ConfigResult t h p subs) = Shape (map resultShape subs)"

fun groupShape :: "configGroup \<Rightarrow> shape" where
  "groupShape (ConfigGroup gs vs ps) = Shape (map (\<lambda>x. groupShape (snd x)) gs)"

fun uniformTx :: "'tx \<Rightarrow> 'tx configResult \<Rightarrow> bool" where
  "uniformTx t (ConfigResult t' h p subs) = (t' = t \<and> list_all (uniformTx t) subs)"

fun isLeafProposal :: "'tx event \<Rightarrow> bool" where
  "isLeafProposal (Call_Deserialize d k v r) = True"
| "isLeafProposal (Call_ProposePolicy h t k p r) = True"
| "isLeafProposal e = False"

section \<open>The calls of the cascades\<close>

lemma rollback_calls:
  "snd (rollback env r s) = postOrder ownRollback r"
  "snd (rollback_subResults env rs s) = concat (map (postOrder ownRollback) rs)"
  by (induction env r s and env rs s rule: rollback_rollback_subResults.induct)
     (auto simp: ownRollback_def split: prod.splits)

lemma commit_calls:
  "snd (commit env r s) = postOrder ownCommit r"
  "snd (commit_subResults env rs s) = concat (map (postOrder ownCommit) rs)"
  by (induction env r s and env rs s rule: commit_commit_subResults.induct)
     (auto simp: ownCommit_def split: prod.splits)

section \<open>Case analysis and induction for proposeGroup\<close>

lemma proposeGroup_cases [consumes 1, case_names failValue failPolicy mismatch failSub own]:
  assumes "proposeGroup env t name w h ph s = (x, s', es)"
  obtains
    err where
      "BeginValueProposals env h t (map fst (Groups (group w))) s = (Inl err, s')"
      "x = Inl err"
      "es = [Call_BeginValueProposals h t (map fst (Groups (group w))) (Some err)]"
  | d hs s1 err where
      "BeginValueProposals env h t (map fst (Groups (group w))) s = (Inr (d, hs), s1)"
      "BeginPolicyProposals env ph t (map fst (Groups (group w))) s1 = (Inl err, s')"
      "x = Inl err"
      "es = [Call_BeginValueProposals h t (map fst (Groups (group w))) None,
             Call_BeginPolicyProposals ph t (map fst (Groups (group w))) (Some err)]"
  | d hs s1 phs where
      "BeginValueProposals env h t (map fst (Groups (group w))) s = (Inr (d, hs), s1)"
      "BeginPolicyProposals env ph t (map fst (Groups (group w))) s1 = (Inr phs, s')"
      "length hs \<noteq> length (Groups (group w)) \<or> length phs \<noteq> length (Groups (group w))"
      "x = Inl (ProgrammingError (length hs) (length (Groups (group w))) (length phs))"
      "es = [Call_BeginValueProposals h t (map fst (Groups (group w))) None,
             Call_BeginPolicyProposals ph t (map fst (Groups (group w))) None]"
  | d hs s1 phs s2 err es3 where
      "BeginValueProposals env h t (map fst (Groups (group w))) s = (Inr (d, hs), s1)"
      "BeginPolicyProposals env ph t (map fst (Groups (group w))) s1 = (Inr phs, s2)"
      "length hs = length (Groups (group w))" "length phs = length (Groups (group w))"
      "proposeGroup_subGroups env t name (Groups (group w)) hs phs (ConfigResult t h ph []) s2
         = (Inl err, s', es3)"
      "x = Inl err"
      "es = [Call_BeginValueProposals h t (map fst (Groups (group w))) None,
             Call_BeginPolicyProposals ph t (map fst (Groups (group w))) None] @ es3"
  | d hs s1 phs s2 result s3 es3 es4 where
      "BeginValueProposals env h t (map fst (Groups (group w))) s = (Inr (d, hs), s1)"
      "BeginPolicyProposals env ph t (map fst (Groups (group w))) s1 = (Inr phs, s2)"
      "length hs = length (Groups (group w))" "length phs = length (Groups (group w))"
      "proposeGroup_subGroups env t name (Groups (group w)) hs phs (ConfigResult t h ph []) s2
         = (Inr result, s3, es3)"
      "proposeGroup_own env t w d ph result s3 = (x, s', es4)"
      "es = [Call_BeginValueProposals h t (map fst (Groups (group w))) None,
             Call_BeginPolicyProposals ph t (map fst (Groups (group w))) None] @ es3 @ es4"
  using assms
  by (auto simp: Let_def split: prod.splits sum.splits if_splits)

lemma subGroups_Cons_cases [consumes 1, case_names panic failChild okChild]:
  assumes "proposeGroup_subGroups env t name ((n, g) # rest) hs phs result s = (x, s', es)"
  obtains
      "hs = [] \<or> phs = []" "x = Inl IndexOutOfRange" "s' = s" "es = []"
  | hc hs' pc phs' err s1 es1 where
      "hs = hc # hs'" "phs = pc # phs'"
      "proposeGroup env t (name @ ''/'' @ n) (newConfigGroupWrapper g) hc pc s = (Inl err, s1, es1)"
      "x = Inl err" "s' = fst (rollback env result s1)"
      "es = es1 @ postOrder ownRollback result"
  | hc hs' pc phs' sub s1 es1 es2 where
      "hs = hc # hs'" "phs = pc # phs'"
      "proposeGroup env t (name @ ''/'' @ n) (newConfigGroupWrapper g) hc pc s = (Inr sub, s1, es1)"
      "proposeGroup_subGroups env t name rest hs' phs'
         (ConfigResult (tx result) (handler result) (policyHandler result) (subResults result @ [sub])) s1
         = (x, s', es2)"
      "es = es1 @ es2"
proof (cases "hs = [] \<or> phs = []")
  case True
  with assms that(1) show ?thesis
    by (auto simp del: proposeGroup.simps split: list.splits)
next
  case False
  then obtain hc hs' pc phs' where l: "hs = hc # hs'" "phs = pc # phs'"
    by (auto simp: neq_Nil_conv)
  obtain c s1 es1 where
    c: "proposeGroup env t (name @ ''/'' @ n) (newConfigGroupWrapper g) hc pc s = (c, s1, es1)"
    by (metis prod_cases3)
  show ?thesis
  proof (cases c)
    case (Inl err)
    have "snd (rollback env result s1) = postOrder ownRollback result"
      by (rule rollback_calls)
    with assms l c Inl that(2) show ?thesis
      by (auto simp del: proposeGroup.simps split: prod.splits)
  next
    case (Inr sub)
    with assms l c that(3) show ?thesis
      by (auto simp del: proposeGroup.simps split: prod.splits)
  qed
qed

declare proposeGroup.simps [simp del] proposeGroup_subGroups.simps [simp del]

lemma propose_induct [case_names group nil cons short]:
  assumes
    "\<And>env t name w h ph s.
       (\<And>d hs s1 phs s2.
           BeginValueProposals env h t (map fst (Groups (group w))) s = (Inr (d, hs), s1) \<Longrightarrow>
           BeginPolicyProposals env ph t (map fst (Groups (group w))) s1 = (Inr phs, s2) \<Longrightarrow>
           length hs = length (Groups (group w)) \<Longrightarrow> length phs = length (Groups (group w)) \<Longrightarrow>
           Q env t name (Groups (group w)) hs phs (ConfigResult t h ph []) s2) \<Longrightarrow>
       P env t name w h ph s"
    "\<And>env t name hs phs result s. Q env t name [] hs phs result s"
    "\<And>env t name n g rest hc hs pc phs result s.
       P env t (name @ ''/'' @ n) (newConfigGroupWrapper g) hc pc s \<Longrightarrow>
       (\<And>sub s1 es1.
           proposeGroup env t (name @ ''/'' @ n) (newConfigGroupWrapper g) hc pc s = (Inr sub, s1, es1) \<Longrightarrow>
           Q env t name rest hs phs
             (ConfigResult (tx result) (handler result) (policyHandler result) (subResults result @ [sub])) s1) \<Longrightarrow>
       Q env t name ((n, g) # rest) (hc # hs) (pc # phs) result s"
    "\<And>env t name n g rest hs phs result s.
       hs = [] \<or> phs = [] \<Longrightarrow> Q env t name ((n, g) # rest) hs phs result s"
  shows "P env t name w h ph s" and "Q env t name gs hs' phs' result' s'"
proof (induction env t name w h ph s and env t name gs hs' phs' result' s'
       rule: proposeGroup_proposeGroup_subGroups.induct)
  case (1 env t name w h ph s)
  show ?case
  proof (rule assms(1))
    fix d hs s1 phs s2
    assume "BeginValueProposals env h t (map fst (Groups (group w))) s = (Inr (d, hs), s1)"
      "BeginPolicyProposals env ph t (map fst (Groups (group w))) s1 = (Inr phs, s2)"
      "length hs = length (Groups (group w))" "length phs = length (Groups (group w))"
    then show "Q env t name (Groups (group w)) hs phs (ConfigResult t h ph []) s2"
      using "1"[OF refl, of "Inr (d, hs)" s1 "(d, hs)" d hs "Inr phs" s2 phs] by simp
  qed
next
  case (2 env t name subHandlers subPolicyHandlers result s)
  show ?case by (rule assms(2))
next
  case (3 env t name subGroup g rest subHandlers subPolicyHandlers result s)
  show ?case
  proof (cases "subHandlers = [] \<or> subPolicyHandlers = []")
    case True
    then show ?thesis by (rule assms(4))
  next
    case False
    then obtain hc hs pc phs where l: "subHandlers = hc # hs" "subPolicyHandlers = pc # phs"
      by (auto simp: neq_Nil_conv)
    show ?thesis
      unfolding l
    proof (rule assms(3))
      show "P env t (name @ ''/'' @ subGroup) (newConfigGroupWrapper g) hc pc s"
        using "3.IH"(1)[OF refl l] .
    next
      fix sub s1 es1
      assume "proposeGroup env t (name @ ''/'' @ subGroup) (newConfigGroupWrapper g) hc pc s = (Inr sub, s1, es1)"
      then show "Q env t name rest hs phs
             (ConfigResult (tx result) (handler result) (policyHandler result) (subResults result @ [sub])) s1"
        using "3.IH"(2)[OF refl l, of "Inr sub" "(s1, es1)" sub s1 es1] by simp
    qed
  qed
qed

lemma preCommit_events:
  "preCommit env r s = (x, s', es) \<Longrightarrow> e \<in> set es \<Longrightarrow> isPreCommit e"
  "preCommit_subResults env rs s = (x, s', es) \<Longrightarrow> e \<in> set es \<Longrightarrow> isPreCommit e"
  by (induction env r s and env rs s arbitrary: x s' es e and x s' es e
      rule: preCommit_preCommit_subResults.induct)
     (auto split: prod.splits option.splits)

lemma preCommit_ok:
  "preCommit env r s = (None, s', es) \<Longrightarrow> es = postOrder ownPreCommit r"
  "preCommit_subResults env rs s = (None, s', es) \<Longrightarrow> es = concat (map (postOrder ownPreCommit) rs)"
  by (induction env r s and env rs s arbitrary: s' es and s' es
      rule: preCommit_preCommit_subResults.induct)
     (auto simp: ownPreCommit_def split: prod.splits option.splits)

lemma preCommit_err:
  "preCommit env r s = (Some err, s', es) \<Longrightarrow> Some err \<in> returnedError ` set es"
  "preCommit_subResults env rs s = (Some err, s', es) \<Longrightarrow> Some err \<in> returnedError ` set es"
  by (induction env r s and env rs s arbitrary: s' es and s' es
      rule: preCommit_preCommit_subResults.induct)
     (fastforce split: prod.splits option.splits simp: image_iff)+

lemma values_ok:
  "proposeGroup_values env d vs result w s = (Inr w', s', es) \<Longrightarrow> e \<in> set es \<Longrightarrow>
     isLeafProposal e \<and> returnedError e = None"
  by (induction env d vs result w s arbitrary: w' s' es e rule: proposeGroup_values.induct)
     (auto split: prod.splits sum.splits)

lemma values_err:
  "proposeGroup_values env d vs result w s = (Inl err, s', es) \<Longrightarrow>
     \<exists>pre. es = pre @ postOrder ownRollback result \<and> (\<forall>e\<in>set pre. isLeafProposal e) \<and>
       Some err \<in> returnedError ` set pre"
proof (induction env d vs result w s arbitrary: s' es rule: proposeGroup_values.induct)
  case (1 env valueDeserializer result w s)
  then show ?case by simp
next
  case (2 env d key val rest result w s)
  obtain y s1 where y: "Deserialize env d key (Value val) s = (y, s1)"
    by (cases "Deserialize env d key (Value val) s")
  show ?case
  proof (cases y)
    case (Inl e)
    have "snd (rollback env result s1) = postOrder ownRollback result"
      by (rule rollback_calls)
    with 2(2) y Inl have "es = [Call_Deserialize d key (Value val) (Some err)] @ postOrder ownRollback result"
      by (auto split: prod.splits)
    then show ?thesis by (intro exI[of _ "[Call_Deserialize d key (Value val) (Some err)]"]) simp
  next
    case (Inr msg)
    with 2(2) y obtain es2 where
      r: "proposeGroup_values env d rest result
            (w\<lparr>deserializedValues := (deserializedValues w)(key \<mapsto> msg)\<rparr>) s1 = (Inl err, s', es2)"
      and es: "es = Call_Deserialize d key (Value val) None # es2"
      by (auto split: prod.splits)
    from 2(1)[OF y[symmetric] Inr r] obtain pre where
      "es2 = pre @ postOrder ownRollback result" "\<forall>e\<in>set pre. isLeafProposal e"
      "Some err \<in> returnedError ` set pre"
      by blast
    with es show ?thesis
      by (intro exI[of _ "Call_Deserialize d key (Value val) None # pre"]) auto
  qed
qed


lemma policies_ok:
  "proposeGroup_policies env t ph ps result s = (None, s', es) \<Longrightarrow> e \<in> set es \<Longrightarrow>
     isLeafProposal e \<and> returnedError e = None"
  by (induction env t ph ps result s arbitrary: s' es e rule: proposeGroup_policies.induct)
     (auto split: prod.splits option.splits)

lemma policies_err:
  "proposeGroup_policies env t ph ps result s = (Some err, s', es) \<Longrightarrow>
     \<exists>pre. es = pre @ postOrder ownRollback result \<and> (\<forall>e\<in>set pre. isLeafProposal e) \<and>
       Some err \<in> returnedError ` set pre"
proof (induction env t ph ps result s arbitrary: s' es rule: proposeGroup_policies.induct)
  case (1 env t ph result s)
  then show ?case by simp
next
  case (2 env t ph key policy rest result s)
  obtain y s1 where y: "ProposePolicy env ph t key policy s = (y, s1)"
    by (cases "ProposePolicy env ph t key policy s")
  show ?case
  proof (cases y)
    case (Some e)
    have "snd (rollback env result s1) = postOrder ownRollback result"
      by (rule rollback_calls)
    with 2(2) y Some have "es = [Call_ProposePolicy ph t key policy (Some err)] @ postOrder ownRollback result"
      by (auto split: prod.splits)
    then show ?thesis by (intro exI[of _ "[Call_ProposePolicy ph t key policy (Some err)]"]) simp
  next
    case None
    with 2(2) y obtain es2 where
      r: "proposeGroup_policies env t ph rest result s1 = (Some err, s', es2)"
      and es: "es = Call_ProposePolicy ph t key policy None # es2"
      by (auto split: prod.splits)
    from 2(1)[OF y[symmetric] None r] obtain pre where
      "es2 = pre @ postOrder ownRollback result" "\<forall>e\<in>set pre. isLeafProposal e"
      "Some err \<in> returnedError ` set pre"
      by blast
    with es show ?thesis
      by (intro exI[of _ "Call_ProposePolicy ph t key policy None # pre"]) auto
  qed
qed

lemma proposeGroup_own_cases [consumes 1, case_names fail ok]:
  assumes "proposeGroup_own env t w d ph result s = (x, s', es)"
  obtains
    err pre where
      "x = Inl err" "es = pre @ postOrder ownRollback result"
      "\<forall>e\<in>set pre. isLeafProposal e \<or> isPreCommit e"
      "Some err \<in> returnedError ` set pre"
  | pre where
      "x = Inr result" "es = pre @ postOrder ownPreCommit result"
      "\<forall>e\<in>set pre. isLeafProposal e \<and> returnedError e = None"
proof -
  obtain v s1 es1 where v: "proposeGroup_values env d (Values (group w)) result w s = (v, s1, es1)"
    by (metis prod_cases3)
  show ?thesis
  proof (cases v)
    case (Inl err)
    with assms v have "x = Inl err" "es = es1"
      by (auto simp: proposeGroup_own_def)
    with values_err[OF v[unfolded Inl]] that(1) show ?thesis by blast
  next
    case (Inr w1)
    obtain p s2 es2 where p: "proposeGroup_policies env t ph (Policies (group w)) result s1 = (p, s2, es2)"
      by (metis prod_cases3)
    have q1: "\<forall>e\<in>set es1. isLeafProposal e \<and> returnedError e = None"
      using values_ok[OF v[unfolded Inr]] by blast
    show ?thesis
    proof (cases p)
      case (Some err)
      with assms v Inr p have x: "x = Inl err" "es = es1 @ es2"
        by (auto simp: proposeGroup_own_def)
      from policies_err[OF p[unfolded Some]] obtain pre where
        pre: "es2 = pre @ postOrder ownRollback result" "\<forall>e\<in>set pre. isLeafProposal e"
        "Some err \<in> returnedError ` set pre"
        by blast
      show ?thesis
      proof (rule that(1)[OF x(1), of "es1 @ pre"])
        show "es = (es1 @ pre) @ postOrder ownRollback result" using x pre by simp
        show "\<forall>e\<in>set (es1 @ pre). isLeafProposal e \<or> isPreCommit e" using q1 pre by auto
        show "Some err \<in> returnedError ` set (es1 @ pre)" using pre by auto
      qed
    next
      case None
      have q2: "\<forall>e\<in>set es2. isLeafProposal e \<and> returnedError e = None"
        using policies_ok[OF p[unfolded None]] by blast
      obtain c s3 es3 where c: "preCommit env result s2 = (c, s3, es3)"
        by (metis prod_cases3)
      show ?thesis
      proof (cases c)
        case None
        with assms v Inr p \<open>p = None\<close> c have x: "x = Inr result" "es = es1 @ es2 @ es3"
          by (auto simp: proposeGroup_own_def proposeGroup_preCommit_def)
        have "es3 = postOrder ownPreCommit result"
          using preCommit_ok(1)[OF c[unfolded None]] .
        with x q1 q2 that(2)[of "es1 @ es2"] show ?thesis by auto
      next
        case (Some err)
        have rb: "snd (rollback env result s3) = postOrder ownRollback result"
          by (rule rollback_calls)
        with assms v Inr p \<open>p = None\<close> c Some have x: "x = Inl err"
          "es = es1 @ es2 @ es3 @ postOrder ownRollback result"
          by (auto simp: proposeGroup_own_def proposeGroup_preCommit_def split: prod.splits)
        show ?thesis
        proof (rule that(1)[OF x(1), of "es1 @ es2 @ es3"])
          show "es = (es1 @ es2 @ es3) @ postOrder ownRollback result" using x by simp
          show "\<forall>e\<in>set (es1 @ es2 @ es3). isLeafProposal e \<or> isPreCommit e"
            using q1 q2 preCommit_events(1)[OF c] by auto
          show "Some err \<in> returnedError ` set (es1 @ es2 @ es3)"
            using preCommit_err(1)[OF c[unfolded Some]] by auto
        qed
      qed
    qed
  qed
qed

lemma postOrder_ownPreCommit_events:
  "e \<in> set (postOrder ownPreCommit r) \<Longrightarrow>
     isPreCommit e \<and> returnedError e = None \<and> \<not> isRollback e \<and> \<not> isCommit e"
  by (induction r arbitrary: e) (auto simp: ownPreCommit_def)

lemma filter_isPreCommit_cascade:
  "filter isPreCommit (postOrder ownPreCommit r) = postOrder ownPreCommit r"
  using postOrder_ownPreCommit_events[of _ r] by (simp add: filter_id_conv)

lemma leaf_not_others:
  "isLeafProposal e \<Longrightarrow> \<not> isPreCommit e \<and> \<not> isRollback e \<and> \<not> isCommit e"
  by (cases e) auto

lemma filter_isPreCommit_leaves:
  "\<forall>e\<in>set es. isLeafProposal e \<and> returnedError e = None \<Longrightarrow> filter isPreCommit es = []"
  by (auto simp: filter_empty_conv dest: leaf_not_others)

lemma groupShape_Groups: "groupShape g = Shape (map (\<lambda>x. groupShape (snd x)) (Groups g))"
  by (cases g) simp

lemma propose_success:
  "proposeGroup env t name w h ph s = (Inr r, s1, es) \<Longrightarrow>
     tx r = t \<and> handler r = h \<and> policyHandler r = ph \<and> uniformTx t r \<and>
     resultShape r = groupShape (group w) \<and>
     (\<forall>e\<in>set es. returnedError e = None \<and> \<not> isRollback e) \<and>
     filter isPreCommit es = postOrder (postOrder ownPreCommit) r"
  "proposeGroup_subGroups env t name gs hs phs result s = (Inr r, s1, es) \<Longrightarrow>
     \<exists>rs. r = ConfigResult (tx result) (handler result) (policyHandler result) (subResults result @ rs) \<and>
       list_all (uniformTx t) rs \<and>
       map resultShape rs = map (\<lambda>x. groupShape (snd x)) gs \<and>
       (\<forall>e\<in>set es. returnedError e = None \<and> \<not> isRollback e) \<and>
       filter isPreCommit es = concat (map (postOrder (postOrder ownPreCommit)) rs)"
proof (induction env t name w h ph s and env t name gs hs phs result s
       arbitrary: r s1 es and r s1 es rule: propose_induct)
  case (group env t name w h ph s)
  from group.prems show ?case
  proof (cases rule: proposeGroup_cases)
    case (own d hs s1' phs s2 result s3 es3 es4)
    from group.IH[OF own(1-5)] obtain rs where
      rs: "result = ConfigResult t h ph rs" "list_all (uniformTx t) rs"
        "map resultShape rs = map (\<lambda>x. groupShape (snd x)) (Groups (group w))"
        "\<forall>e\<in>set es3. returnedError e = None \<and> \<not> isRollback e"
        "filter isPreCommit es3 = concat (map (postOrder (postOrder ownPreCommit)) rs)"
      by auto
    from own(6) show ?thesis
    proof (cases rule: proposeGroup_own_cases)
      case (ok pre)
      have c: "\<forall>e\<in>set (postOrder ownPreCommit result). returnedError e = None \<and> \<not> isRollback e"
        using postOrder_ownPreCommit_events by blast
      have p: "\<forall>e\<in>set pre. returnedError e = None \<and> \<not> isRollback e"
        using ok(3) leaf_not_others by blast
      have f: "filter isPreCommit es = filter isPreCommit es3 @ postOrder ownPreCommit result"
        using own(7) ok(2) filter_isPreCommit_leaves[OF ok(3)]
        by (simp add: filter_isPreCommit_cascade)
      have "r = result" using ok(1) by simp
      with rs c p f own(7) ok(2) show ?thesis
        by (auto simp: groupShape_Groups[of "group w"])
    qed simp
  qed simp_all
next
  case (nil env t name hs phs result s)
  then show ?case by (cases result) (auto simp: proposeGroup_subGroups.simps)
next
  case (cons env t name n g rest hc hs pc phs result s)
  from cons.prems show ?case
  proof (cases rule: subGroups_Cons_cases)
    case (okChild hc' hs' pc' phs' sub s1' es1 es2)
    then have l: "hc' = hc" "hs' = hs" "pc' = pc" "phs' = phs" by simp_all
    note child = cons.IH(1)[OF okChild(3)[unfolded l]]
    from cons.IH(2)[OF okChild(3)[unfolded l] okChild(4)[unfolded l]] obtain rs where
      rs: "r = ConfigResult (tx result) (handler result) (policyHandler result)
                 ((subResults result @ [sub]) @ rs)"
        "list_all (uniformTx t) rs"
        "map resultShape rs = map (\<lambda>x. groupShape (snd x)) rest"
        "\<forall>e\<in>set es2. returnedError e = None \<and> \<not> isRollback e"
        "filter isPreCommit es2 = concat (map (postOrder (postOrder ownPreCommit)) rs)"
      by auto
    show ?thesis
      using child rs okChild(5)
      by (intro exI[of _ "sub # rs"]) (auto simp: newConfigGroupWrapper_def)
  qed simp_all
next
  case (short env t name n g rest hs phs result s)
  from short.prems show ?case
    by (cases rule: subGroups_Cons_cases) (use short.hyps in auto)
qed

lemma postOrder_tx:
  assumes "\<And>r e. e \<in> set (own r) \<Longrightarrow> eventTx e = Some (tx r) \<and> \<not> isCommit e"
  shows "uniformTx t r \<Longrightarrow> e \<in> set (postOrder own r) \<Longrightarrow> eventTx e = Some t \<and> \<not> isCommit e"
proof (induction r arbitrary: e)
  case (ConfigResult t' h p subs)
  from ConfigResult.prems(2) consider
    (sub) c where "c \<in> set subs" "e \<in> set (postOrder own c)"
    | (self) "e \<in> set (own (ConfigResult t' h p subs))"
    by auto
  then show ?case
  proof cases
    case sub
    with ConfigResult.IH[OF sub(1) _ sub(2)] ConfigResult.prems(1) show ?thesis
      by (auto simp: list_all_iff)
  next
    case self
    with assms[OF self] ConfigResult.prems(1) show ?thesis by simp
  qed
qed

lemma rollback_tx:
  "uniformTx t r \<Longrightarrow> e \<in> set (postOrder ownRollback r) \<Longrightarrow> eventTx e = Some t \<and> \<not> isCommit e"
  by (rule postOrder_tx[of ownRollback]) (auto simp: ownRollback_def)

lemma preCommit_tx:
  "preCommit env r s = (x, s', es) \<Longrightarrow> uniformTx t r \<Longrightarrow> e \<in> set es \<Longrightarrow> eventTx e = Some t"
  "preCommit_subResults env rs s = (x, s', es) \<Longrightarrow> list_all (uniformTx t) rs \<Longrightarrow> e \<in> set es \<Longrightarrow>
     eventTx e = Some t"
  by (induction env r s and env rs s arbitrary: x s' es e and x s' es e
      rule: preCommit_preCommit_subResults.induct)
     (auto split: prod.splits option.splits)

lemma values_tx:
  "proposeGroup_values env d vs result w s = (x, s', es) \<Longrightarrow> uniformTx t result \<Longrightarrow> e \<in> set es \<Longrightarrow>
     (eventTx e = None \<or> eventTx e = Some t) \<and> \<not> isCommit e"
proof (induction env d vs result w s arbitrary: x s' es e rule: proposeGroup_values.induct)
  case (1 env valueDeserializer result w s)
  then show ?case by simp
next
  case (2 env d key val rest result w s)
  obtain y s1 where y: "Deserialize env d key (Value val) s = (y, s1)"
    by (cases "Deserialize env d key (Value val) s")
  show ?case
  proof (cases y)
    case (Inl err)
    have "snd (rollback env result s1) = postOrder ownRollback result"
      by (rule rollback_calls)
    with 2(2) y Inl
    have "es = Call_Deserialize d key (Value val) (Some err) # postOrder ownRollback result"
      by (auto split: prod.splits)
    with 2(4) rollback_tx[OF 2(3)] show ?thesis by auto
  next
    case (Inr msg)
    with 2(2) y obtain x2 es2 where
      r: "proposeGroup_values env d rest result
            (w\<lparr>deserializedValues := (deserializedValues w)(key \<mapsto> msg)\<rparr>) s1 = (x2, s', es2)"
      and es: "es = Call_Deserialize d key (Value val) None # es2"
      by (auto split: prod.splits)
    from 2(1)[OF y[symmetric] Inr r 2(3)] es 2(4) show ?thesis by auto
  qed
qed

lemma policies_tx:
  "proposeGroup_policies env t ph ps result s = (x, s', es) \<Longrightarrow> uniformTx t result \<Longrightarrow> e \<in> set es \<Longrightarrow>
     eventTx e = Some t \<and> \<not> isCommit e"
proof (induction env t ph ps result s arbitrary: x s' es e rule: proposeGroup_policies.induct)
  case (1 env t ph result s)
  then show ?case by simp
next
  case (2 env t ph key policy rest result s)
  obtain y s1 where y: "ProposePolicy env ph t key policy s = (y, s1)"
    by (cases "ProposePolicy env ph t key policy s")
  show ?case
  proof (cases y)
    case (Some err)
    have "snd (rollback env result s1) = postOrder ownRollback result"
      by (rule rollback_calls)
    with 2(2) y Some
    have "es = Call_ProposePolicy ph t key policy (Some err) # postOrder ownRollback result"
      by (auto split: prod.splits)
    with 2(4) rollback_tx[OF 2(3)] show ?thesis by auto
  next
    case None
    with 2(2) y obtain x2 es2 where
      r: "proposeGroup_policies env t ph rest result s1 = (x2, s', es2)"
      and es: "es = Call_ProposePolicy ph t key policy None # es2"
      by (auto split: prod.splits)
    from 2(1)[OF y[symmetric] None r 2(3)] es 2(4) show ?thesis by auto
  qed
qed

lemma own_tx:
  assumes "proposeGroup_own env t w d ph result s = (x, s', es)" "uniformTx t result" "e \<in> set es"
  shows "(eventTx e = None \<or> eventTx e = Some t) \<and> \<not> isCommit e"
proof -
  obtain v s1 es1 where v: "proposeGroup_values env d (Values (group w)) result w s = (v, s1, es1)"
    by (metis prod_cases3)
  obtain p s2 es2 where p: "proposeGroup_policies env t ph (Policies (group w)) result s1 = (p, s2, es2)"
    by (metis prod_cases3)
  obtain c s3 es3 where c: "preCommit env result s2 = (c, s3, es3)"
    by (metis prod_cases3)
  obtain s4 es4 where r: "rollback env result s3 = (s4, es4)"
    by (metis prod.exhaust)
  have es4: "es4 = postOrder ownRollback result"
    using rollback_calls(1)[of env result s3] r by simp
  have "set es \<subseteq> set es1 \<union> set es2 \<union> set es3 \<union> set es4"
    using assms(1) v p c r
    by (auto simp: proposeGroup_own_def proposeGroup_preCommit_def split: sum.splits option.splits)
  with assms(3) consider "e \<in> set es1" | "e \<in> set es2" | "e \<in> set es3" | "e \<in> set es4"
    by blast
  then show ?thesis
  proof cases
    case 1
    then show ?thesis using values_tx[OF v assms(2)] by blast
  next
    case 2
    then show ?thesis using policies_tx[OF p assms(2)] by blast
  next
    case 3
    then have "eventTx e = Some t" "isPreCommit e"
      using preCommit_tx(1)[OF c assms(2)] preCommit_events(1)[OF c] by blast+
    then show ?thesis by (cases e) auto
  next
    case 4
    then show ?thesis using rollback_tx[OF assms(2)] es4 by blast
  qed
qed

lemma propose_events:
  "proposeGroup env t name w h ph s = (x, s1, es) \<Longrightarrow> e \<in> set es \<Longrightarrow>
     (eventTx e = None \<or> eventTx e = Some t) \<and> \<not> isCommit e"
  "proposeGroup_subGroups env t name gs hs phs result s = (x, s1, es) \<Longrightarrow> uniformTx t result \<Longrightarrow>
     e \<in> set es \<Longrightarrow> (eventTx e = None \<or> eventTx e = Some t) \<and> \<not> isCommit e"
proof (induction env t name w h ph s and env t name gs hs phs result s
       arbitrary: x s1 es e and x s1 es e rule: propose_induct)
  case (group env t name w h ph s)
  from group.prems(1) show ?case
  proof (cases rule: proposeGroup_cases)
    case (failSub d hs s1' phs s2 err es3)
    from group.IH[OF failSub(1-5)] group.prems(2) failSub(7) show ?thesis by auto
  next
    case (own d hs s1' phs s2 result s3 es3 es4)
    from propose_success(2)[OF own(5)] have u: "uniformTx t result" by auto
    from group.IH[OF own(1-5)] own_tx[OF own(6) u] group.prems(2) own(7) show ?thesis by auto
  qed (use group.prems(2) in auto)
next
  case (nil env t name hs phs result s)
  then show ?case by (simp add: proposeGroup_subGroups.simps)
next
  case (cons env t name n g rest hc hs pc phs result s)
  from cons.prems(1) show ?case
  proof (cases rule: subGroups_Cons_cases)
    case (failChild hc' hs' pc' phs' err s1' es1)
    then have l: "hc' = hc" "hs' = hs" "pc' = pc" "phs' = phs" by simp_all
    from cons.IH(1)[OF failChild(3)[unfolded l]] rollback_tx[OF cons.prems(2)]
      cons.prems(3) failChild(6)
    show ?thesis by auto
  next
    case (okChild hc' hs' pc' phs' sub s1' es1 es2)
    then have l: "hc' = hc" "hs' = hs" "pc' = pc" "phs' = phs" by simp_all
    from propose_success(1)[OF okChild(3)] have "uniformTx t sub" by simp
    with cons.prems(2) have u: "uniformTx t (ConfigResult (tx result) (handler result)
        (policyHandler result) (subResults result @ [sub]))"
      by (cases result) simp
    from cons.IH(1)[OF okChild(3)[unfolded l]]
      cons.IH(2)[OF okChild(3)[unfolded l] okChild(4)[unfolded l] u]
      cons.prems(3) okChild(5)
    show ?thesis by auto
  qed simp
next
  case (short env t name n g rest hs phs result s)
  from short.prems(1) show ?case
    by (cases rule: subGroups_Cons_cases) (use short.hyps short.prems(3) in auto)
qed

section \<open>Example collaborators and trees\<close>

text \<open>
  Collaborators that accept everything. Their state counts the calls made. The handler for
  the \<open>i\<close>-th declared sub-group of handler \<open>h\<close> is the reference \<open>10 * h + i\<close>, and the
  deserializer of a handler has the handler's own number.
\<close>

fun childRefs :: "handlerRef \<Rightarrow> nat \<Rightarrow> string list \<Rightarrow> handlerRef list" where
  "childRefs h i [] = []"
| "childRefs h i (n # ns) = (10 * h + i) # childRefs h (Suc i) ns"

definition accepting :: "(nat, configGroup) collaborators" where
  "accepting =
     \<lparr>BeginValueProposals = (\<lambda>h t names s. (Inr (h, childRefs h 1 names), Suc s)),
      BeginPolicyProposals = (\<lambda>h t names s. (Inr (childRefs h 1 names), Suc s)),
      Deserialize = (\<lambda>d key v s. (Inr v, Suc s)),
      ProposePolicy = (\<lambda>h t key p s. (None, Suc s)),
      PreCommit = (\<lambda>h t s. (None, Suc s)),
      CommitProposals = (\<lambda>h t s. Suc s),
      RollbackProposals = (\<lambda>h t s. Suc s)\<rparr>"

text \<open>The same, but a policy under the key \<open>bad\<close> is refused.\<close>

definition refusingPolicy :: "(nat, configGroup) collaborators" where
  "refusingPolicy =
     accepting\<lparr>ProposePolicy :=
       (\<lambda>h t key p s. (if key = ''bad'' then Some (CollaboratorError ''bad policy'') else None, Suc s))\<rparr>"

text \<open>The same, but the value handler 113 fails its \<^verbatim>\<open>PreCommit\<close>.\<close>

definition failingPreCommit :: "(nat, configGroup) collaborators" where
  "failingPreCommit =
     accepting\<lparr>PreCommit :=
       (\<lambda>h t s. (if h = 113 then Some (CollaboratorError ''inconsistent'') else None, Suc s))\<rparr>"

text \<open>The same, but a value handler returns one handler too few.\<close>

definition shortHanded :: "(nat, configGroup) collaborators" where
  "shortHanded =
     accepting\<lparr>BeginValueProposals :=
       (\<lambda>h t names s. (Inr (h, childRefs h 1 (butlast names)), Suc s))\<rparr>"

definition exampleManager :: configManager where
  "exampleManager = \<lparr>initializer_ValueProposer = 1, initializer_PolicyProposer = 2\<rparr>"

definition leafGroup :: configGroup where
  "leafGroup = ConfigGroup [] [(''v'', ConfigValue ''x'')] [(''p'', ConfigPolicy ''y'')]"

definition badLeaf :: configGroup where
  "badLeaf = ConfigGroup [] [] [(''bad'', ConfigPolicy ''y'')]"

definition threeGroups :: configGroup where
  "threeGroups = ConfigGroup [(''A'', leafGroup), (''B'', leafGroup), (''C'', leafGroup)] [] []"

lemmas example_defs =
  processConfig_def proposeGroup.simps proposeGroup_subGroups.simps accepting_def refusingPolicy_def failingPreCommit_def
  shortHanded_def exampleManager_def leafGroup_def badLeaf_def threeGroups_def helperGroup_def
  NewConfigGroup_def newConfigGroupWrapper_def proposeGroup_own_def proposeGroup_preCommit_def Let_def

section \<open>Atomicity\<close>

text \<open>
  C1. Atomicity: whenever \<^verbatim>\<open>processConfig\<close> returns an error, whatever the tree and the
  collaborators, no call of \<^verbatim>\<open>CommitProposals\<close> was made on any handler: the calls of the run
  contain no \<open>Call_CommitProposals\<close>. (No result is returned either, so nothing is left to
  commit.)
\<close>

theorem processConfig_atomic:
  assumes "processConfig env RootGroupKey cm channelGroup s = (Inl err, s', es)"
  shows "Call_CommitProposals h t \<notin> set es"
proof
  assume c: "Call_CommitProposals h t \<in> set es"
  obtain x where "proposeGroup env channelGroup []
      (newConfigGroupWrapper (helperGroup RootGroupKey channelGroup))
      (initializer_ValueProposer cm) (initializer_PolicyProposer cm) s = (x, s', es)"
    using assms by (auto simp: processConfig_def split: prod.splits sum.splits)
  from propose_events(1)[OF this c] show False by simp
qed

theorem processConfig_atomic_witness:
  "fst (processConfig refusingPolicy ''Channel'' exampleManager badLeaf 0)
     = Inl (CollaboratorError ''bad policy'') \<and>
   Call_CommitProposals 21 badLeaf
     \<notin> set (snd (snd (processConfig refusingPolicy ''Channel'' exampleManager badLeaf 0)))"
proof -
  have r: "fst (processConfig refusingPolicy ''Channel'' exampleManager badLeaf 0)
     = Inl (CollaboratorError ''bad policy'')"
    by (simp add: example_defs)
  then have "processConfig refusingPolicy ''Channel'' exampleManager badLeaf 0
     = (Inl (CollaboratorError ''bad policy''),
        fst (snd (processConfig refusingPolicy ''Channel'' exampleManager badLeaf 0)),
        snd (snd (processConfig refusingPolicy ''Channel'' exampleManager badLeaf 0)))"
    by (simp add: prod_eq_iff)
  from processConfig_atomic[OF this] r show ?thesis by blast
qed

section \<open>Mismatch detection\<close>

text \<open>
  C5. Mismatch detection: when both \<^verbatim>\<open>Begin\<close> calls of a node succeed and one of the
  returned handler sequences does not have as many elements as the node has sub-groups,
  \<^verbatim>\<open>proposeGroup\<close> returns no result but the error it builds itself from the three lengths,
  which no collaborator returned; the two \<^verbatim>\<open>Begin\<close> calls are the only calls made, so no
  rollback is invoked at that level.
\<close>

theorem proposeGroup_mismatch:
  assumes "BeginValueProposals env h t (map fst (Groups (group w))) s = (Inr (d, subHandlers), s1)"
    and "BeginPolicyProposals env ph t (map fst (Groups (group w))) s1 = (Inr subPolicyHandlers, s2)"
    and "length subHandlers \<noteq> length (Groups (group w)) \<or>
         length subPolicyHandlers \<noteq> length (Groups (group w))"
  shows "proposeGroup env t name w h ph s =
           (Inl (ProgrammingError (length subHandlers) (length (Groups (group w)))
                   (length subPolicyHandlers)),
            s2,
            [Call_BeginValueProposals h t (map fst (Groups (group w))) None,
             Call_BeginPolicyProposals ph t (map fst (Groups (group w))) None]) \<and>
         filter isRollback (snd (snd (proposeGroup env t name w h ph s))) = []"
  using assms by (auto simp: proposeGroup.simps Let_def)

theorem proposeGroup_mismatch_witness:
  "proposeGroup shortHanded threeGroups ''/Channel'' (newConfigGroupWrapper threeGroups) 11 21 0 =
     (Inl (ProgrammingError 2 3 3), 2,
      [Call_BeginValueProposals 11 threeGroups [''A'', ''B'', ''C''] None,
       Call_BeginPolicyProposals 21 threeGroups [''A'', ''B'', ''C''] None]) \<and>
   filter isRollback
     (snd (snd (proposeGroup shortHanded threeGroups ''/Channel''
                  (newConfigGroupWrapper threeGroups) 11 21 0))) = []"
proof -
  have g: "map fst (Groups (group (newConfigGroupWrapper threeGroups))) = [''A'', ''B'', ''C'']"
    by (simp add: newConfigGroupWrapper_def threeGroups_def)
  have v: "BeginValueProposals shortHanded 11 threeGroups
             (map fst (Groups (group (newConfigGroupWrapper threeGroups)))) 0
           = (Inr (11, [111, 112]), 1)"
    unfolding g by (simp add: shortHanded_def accepting_def)
  have p: "BeginPolicyProposals shortHanded 21 threeGroups
             (map fst (Groups (group (newConfigGroupWrapper threeGroups)))) 1
           = (Inr [211, 212, 213], 2)"
    unfolding g by (simp add: shortHanded_def accepting_def)
  have l: "length [111, 112 :: nat] \<noteq> length (Groups (group (newConfigGroupWrapper threeGroups))) \<or>
           length [211, 212, 213 :: nat] \<noteq> length (Groups (group (newConfigGroupWrapper threeGroups)))"
    by (simp add: newConfigGroupWrapper_def threeGroups_def)
  from proposeGroup_mismatch[OF v p l, of "''/Channel''"] show ?thesis
    unfolding g by (simp add: newConfigGroupWrapper_def threeGroups_def)
qed

section \<open>The cascades are post-order\<close>

text \<open>
  C6. Post-order cascade: for every result tree, \<^verbatim>\<open>commit\<close> makes the calls of the commit
  of every sub-result, in the stored order, before the node's own two \<^verbatim>\<open>CommitProposals\<close>
  calls (value handler, then policy handler), at every level; \<^verbatim>\<open>rollback\<close> does the same
  with \<^verbatim>\<open>RollbackProposals\<close>.
\<close>

theorem cascades_post_order:
  "snd (commit env r s) = postOrder ownCommit r \<and>
   snd (rollback env r s) = postOrder ownRollback r \<and>
   postOrder ownCommit (ConfigResult t h p subs) =
     concat (map (postOrder ownCommit) subs) @ [Call_CommitProposals h t, Call_CommitProposals p t] \<and>
   postOrder ownRollback (ConfigResult t h p subs) =
     concat (map (postOrder ownRollback) subs) @ [Call_RollbackProposals h t, Call_RollbackProposals p t]"
  by (simp add: commit_calls rollback_calls ownCommit_def ownRollback_def)

section \<open>The shape of the result\<close>

lemma helperGroup_eq: "helperGroup RootGroupKey channelGroup = ConfigGroup [(RootGroupKey, channelGroup)] [] []"
  by (simp add: helperGroup_def NewConfigGroup_def)

text \<open>
  C3, as the code has it. When \<^verbatim>\<open>processConfig\<close> succeeds, the result it returns is the
  entry of the synthetic root: it has exactly one sub-result, and that sub-result mirrors
  the input tree, one entry per node with the same nesting, the children in the order
  enumerated. The result therefore has one entry more than the input tree has nodes.
\<close>

theorem processConfig_shape:
  assumes "processConfig env RootGroupKey cm channelGroup s = (Inr r, s', es)"
  shows "resultShape r = Shape [groupShape channelGroup] \<and>
         shapeNodes (resultShape r) = Suc (shapeNodes (groupShape channelGroup))"
proof -
  have "proposeGroup env channelGroup []
      (newConfigGroupWrapper (helperGroup RootGroupKey channelGroup))
      (initializer_ValueProposer cm) (initializer_PolicyProposer cm) s = (Inr r, s', es)"
    using assms by (auto simp: processConfig_def split: prod.splits sum.splits)
  from propose_success(1)[OF this]
  have "resultShape r = groupShape (helperGroup RootGroupKey channelGroup)"
    by (simp add: newConfigGroupWrapper_def)
  then show ?thesis by (simp add: helperGroup_eq)
qed

theorem processConfig_shape_witness:
  "fst (processConfig accepting ''Channel'' exampleManager threeGroups 0)
     = Inr (ConfigResult threeGroups 1 2
              [ConfigResult threeGroups 11 21
                 [ConfigResult threeGroups 111 211 [], ConfigResult threeGroups 112 212 [],
                  ConfigResult threeGroups 113 213 []]]) \<and>
   resultShape (ConfigResult threeGroups 1 2
              [ConfigResult threeGroups 11 21
                 [ConfigResult threeGroups 111 211 [], ConfigResult threeGroups 112 212 [],
                  ConfigResult threeGroups 113 213 []]]) = Shape [groupShape threeGroups] \<and>
   shapeNodes (resultShape (ConfigResult threeGroups 1 2
              [ConfigResult threeGroups 11 21
                 [ConfigResult threeGroups 111 211 [], ConfigResult threeGroups 112 212 [],
                  ConfigResult threeGroups 113 213 []]])) = Suc (shapeNodes (groupShape threeGroups))"
proof -
  let ?run = "processConfig accepting ''Channel'' exampleManager threeGroups 0"
  let ?r = "ConfigResult threeGroups 1 2
              [ConfigResult threeGroups 11 21
                 [ConfigResult threeGroups 111 211 [], ConfigResult threeGroups 112 212 [],
                  ConfigResult threeGroups 113 213 []]]"
  have r: "fst ?run = Inr ?r"
    by (simp add: example_defs)
  then have "?run = (Inr ?r, fst (snd ?run), snd (snd ?run))"
    by (simp add: prod_eq_iff)
  from processConfig_shape[OF this] r show ?thesis by simp
qed

text \<open>
  C3 as stated fails: for a tree of one node the result has two entries, the synthetic
  root's and the node's, so neither the count nor the nesting is that of the input tree.
\<close>

theorem processConfig_shape_counterexample:
  "fst (processConfig accepting ''Channel'' exampleManager leafGroup 0)
     = Inr (ConfigResult leafGroup 1 2 [ConfigResult leafGroup 11 21 []]) \<and>
   shapeNodes (resultShape (ConfigResult leafGroup 1 2 [ConfigResult leafGroup 11 21 []])) = 2 \<and>
   shapeNodes (groupShape leafGroup) = 1 \<and>
   resultShape (ConfigResult leafGroup 1 2 [ConfigResult leafGroup 11 21 []]) \<noteq> groupShape leafGroup"
  by (simp add: example_defs)

section \<open>How often PreCommit is called\<close>

text \<open>
  \<open>handlersOf\<close>: the value handlers of the nodes of a result tree, one occurrence for each
  node. \<open>preCommitLoad d\<close>: the same, but the handler of a node \<open>n\<close> levels below the root
  occurs \<open>d + n + 1\<close> times. \<open>calledHandler\<close>: the reference a logged call was made on.
\<close>

fun handlersOf :: "'tx configResult \<Rightarrow> handlerRef multiset" where
  "handlersOf (ConfigResult t h p subs) = {#h#} + sum_list (map handlersOf subs)"

fun preCommitLoad :: "nat \<Rightarrow> 'tx configResult \<Rightarrow> handlerRef multiset" where
  "preCommitLoad d (ConfigResult t h p subs) =
     replicate_mset (Suc d) h + sum_list (map (preCommitLoad (Suc d)) subs)"

fun calledHandler :: "'tx event \<Rightarrow> handlerRef" where
  "calledHandler (Call_BeginValueProposals h t ns r) = h"
| "calledHandler (Call_BeginPolicyProposals h t ns r) = h"
| "calledHandler (Call_Deserialize d k v r) = d"
| "calledHandler (Call_ProposePolicy h t k p r) = h"
| "calledHandler (Call_PreCommit h t r) = h"
| "calledHandler (Call_CommitProposals h t) = h"
| "calledHandler (Call_RollbackProposals h t) = h"

lemma sum_list_cong_mset:
  "(\<And>x. x \<in> set xs \<Longrightarrow> f x = g x) \<Longrightarrow> sum_list (map f xs) = (sum_list (map g xs) :: 'a multiset)"
  by (induction xs) auto

lemma mset_map_concat:
  "mset (map f (concat (map g xs))) = sum_list (map (\<lambda>x. mset (map f (g x))) xs)"
  by (induction xs) auto

lemma cascade_handlers: "mset (map calledHandler (postOrder ownPreCommit r)) = handlersOf r"
proof (induction r)
  case (ConfigResult t h p subs)
  have a: "sum_list (map (\<lambda>c. mset (map calledHandler (postOrder ownPreCommit c))) subs)
        = sum_list (map handlersOf subs)"
    by (rule sum_list_cong_mset) (rule ConfigResult.IH)
  have "mset (map calledHandler (postOrder ownPreCommit (ConfigResult t h p subs)))
        = sum_list (map handlersOf subs)
          + mset (map calledHandler (ownPreCommit (ConfigResult t h p subs)))"
    by (simp only: postOrder.simps map_append mset_append mset_map_concat a)
  also have "\<dots> = handlersOf (ConfigResult t h p subs)"
    by (simp add: ownPreCommit_def)
  finally show ?case .
qed

lemma preCommitLoad_Suc: "preCommitLoad (Suc d) r = preCommitLoad d r + handlersOf r"
proof (induction r arbitrary: d)
  case (ConfigResult t h p subs)
  have "sum_list (map (preCommitLoad (Suc (Suc d))) subs)
        = sum_list (map (\<lambda>c. preCommitLoad (Suc d) c + handlersOf c) subs)"
    by (rule sum_list_cong_mset) (rule ConfigResult.IH)
  then show ?case by (simp add: sum_list_addf)
qed

lemma all_preCommit_handlers:
  "mset (map calledHandler (postOrder (postOrder ownPreCommit) r)) = preCommitLoad 0 r"
proof (induction r)
  case (ConfigResult t h p subs)
  have a: "sum_list (map (\<lambda>c. mset (map calledHandler (postOrder (postOrder ownPreCommit) c))) subs)
        = sum_list (map (preCommitLoad 0) subs)"
    by (rule sum_list_cong_mset) (rule ConfigResult.IH)
  have b: "sum_list (map (preCommitLoad (Suc 0)) subs)
        = sum_list (map (\<lambda>c. preCommitLoad 0 c + handlersOf c) subs)"
    by (rule sum_list_cong_mset) (rule preCommitLoad_Suc)
  have "mset (map calledHandler (postOrder (postOrder ownPreCommit) (ConfigResult t h p subs)))
        = sum_list (map (preCommitLoad 0) subs) + handlersOf (ConfigResult t h p subs)"
    using cascade_handlers[of "ConfigResult t h p subs"]
    by (simp only: postOrder.simps map_append mset_append mset_map_concat a)
  also have "\<dots> = preCommitLoad 0 (ConfigResult t h p subs)"
    by (simp add: b sum_list_addf)
  finally show ?case .
qed

lemma last_cascade: "last (postOrder ownPreCommit r) = Call_PreCommit (handler r) (tx r) None"
  by (cases r) (simp add: ownPreCommit_def)

text \<open>
  C4, as the code has it. Every \<^verbatim>\<open>proposeGroup\<close> call ends with the \<^verbatim>\<open>preCommit\<close> cascade over
  the whole result it assembled, so in a successful run the \<^verbatim>\<open>PreCommit\<close> calls are, node
  after node in post-order, the cascade of that node's subtree: a node's value handler is
  called once by the node's own \<^verbatim>\<open>proposeGroup\<close> and once more by that of every enclosing
  node (\<open>d + 1\<close> times for a node \<open>d\<close> levels below the node proposed). The cascade that
  ends the run comes after every other call of the run, all of which succeeded, and its
  last call is the \<^verbatim>\<open>PreCommit\<close> of the node's own value handler.
\<close>

theorem proposeGroup_preCommit_calls:
  assumes "proposeGroup env t name w h ph s = (Inr r, s', es)"
  shows "filter isPreCommit es = postOrder (postOrder ownPreCommit) r \<and>
         mset (map calledHandler (filter isPreCommit es)) = preCommitLoad 0 r \<and>
         (\<exists>pre. es = pre @ postOrder ownPreCommit r) \<and>
         last es = Call_PreCommit h t None \<and>
         list_all (\<lambda>e. returnedError e = None) es"
proof -
  note ok = propose_success(1)[OF assms]
  have 1: "filter isPreCommit es = postOrder (postOrder ownPreCommit) r" using ok by simp
  have 2: "mset (map calledHandler (filter isPreCommit es)) = preCommitLoad 0 r"
    unfolding 1 by (rule all_preCommit_handlers)
  from assms have 3: "\<exists>pre. es = pre @ postOrder ownPreCommit r"
  proof (cases rule: proposeGroup_cases)
    case (own d hs s1 phs s2 result s3 es3 es4)
    from own(6) show ?thesis
    proof (cases rule: proposeGroup_own_cases)
      case (ok pre)
      with own(7) show ?thesis by auto
    qed simp
  qed simp_all
  have ne: "postOrder ownPreCommit r \<noteq> []"
    by (cases r) (simp add: ownPreCommit_def)
  from 3 ne have 4: "last es = Call_PreCommit h t None"
    using last_cascade[of r] ok by auto
  have 5: "list_all (\<lambda>e. returnedError e = None) es"
    using ok by (simp add: list_all_iff)
  from 1 2 3 4 5 show ?thesis by blast
qed

theorem proposeGroup_preCommit_calls_witness:
  "fst (proposeGroup accepting leafGroup []
          (newConfigGroupWrapper (helperGroup ''Channel'' leafGroup)) 1 2 0)
     = Inr (ConfigResult leafGroup 1 2 [ConfigResult leafGroup 11 21 []]) \<and>
   filter isPreCommit (snd (snd (proposeGroup accepting leafGroup []
          (newConfigGroupWrapper (helperGroup ''Channel'' leafGroup)) 1 2 0)))
     = [Call_PreCommit 11 leafGroup None, Call_PreCommit 11 leafGroup None,
        Call_PreCommit 1 leafGroup None] \<and>
   mset (map calledHandler (filter isPreCommit (snd (snd (proposeGroup accepting leafGroup []
          (newConfigGroupWrapper (helperGroup ''Channel'' leafGroup)) 1 2 0)))))
     = {#1, 11, 11#} \<and>
   last (snd (snd (proposeGroup accepting leafGroup []
          (newConfigGroupWrapper (helperGroup ''Channel'' leafGroup)) 1 2 0)))
     = Call_PreCommit 1 leafGroup None \<and>
   list_all (\<lambda>e. returnedError e = None) (snd (snd (proposeGroup accepting leafGroup []
          (newConfigGroupWrapper (helperGroup ''Channel'' leafGroup)) 1 2 0)))"
proof -
  let ?run = "proposeGroup accepting leafGroup []
          (newConfigGroupWrapper (helperGroup ''Channel'' leafGroup)) 1 2 0"
  let ?r = "ConfigResult leafGroup 1 2 [ConfigResult leafGroup 11 21 []]"
  have r: "fst ?run = Inr ?r"
    by (simp add: example_defs)
  then have "?run = (Inr ?r, fst (snd ?run), snd (snd ?run))"
    by (simp add: prod_eq_iff)
  from proposeGroup_preCommit_calls[OF this] r show ?thesis
    by (simp add: ownPreCommit_def)
qed

text \<open>
  C4 as stated fails: in the run over a tree of one node, the value handler of that node
  (reference 11) has \<^verbatim>\<open>PreCommit\<close> called twice, by the node's own \<^verbatim>\<open>proposeGroup\<close> and by the
  cascade of the synthetic root.
\<close>

theorem preCommit_once_counterexample:
  "count_list (snd (snd (processConfig accepting ''Channel'' exampleManager leafGroup 0)))
     (Call_PreCommit 11 leafGroup None) = 2"
  by (simp add: example_defs)

section \<open>Root wrapping\<close>

lemma rollback_events: "e \<in> set (postOrder ownRollback r) \<Longrightarrow> isRollback e"
  by (induction r arbitrary: e) (auto simp: ownRollback_def)

lemma root_rest:
  assumes "proposeGroup_subGroups env t name [(n, g)] [hc] [pc] root s = (x, s', es)"
    and "proposeGroup env t (name @ ''/'' @ n) (newConfigGroupWrapper g) hc pc s = (c, s1, es1)"
  shows "\<exists>rest. es = es1 @ rest \<and> (\<forall>e\<in>set rest. isRollback e)"
  using assms(1)
proof (cases rule: subGroups_Cons_cases)
  case (failChild hc' hs' pc' phs' err s1' es1')
  with assms(2) show ?thesis
    by (auto dest: rollback_events)
next
  case (okChild hc' hs' pc' phs' sub s1' es1' es2)
  with assms(2) show ?thesis by (auto simp: proposeGroup_subGroups.simps)
qed simp

lemma own_empty:
  assumes "Values (group w) = []" "Policies (group w) = []"
    and "proposeGroup_own env t w d ph result s = (x, s', es)"
  shows "\<forall>e\<in>set es. isPreCommit e \<or> isRollback e"
proof -
  obtain c s3 es3 where c: "preCommit env result s = (c, s3, es3)"
    by (metis prod_cases3)
  have rb: "snd (rollback env result s3) = postOrder ownRollback result"
    by (rule rollback_calls)
  have "set es \<subseteq> set es3 \<union> set (postOrder ownRollback result)"
    using assms c rb
    by (auto simp: proposeGroup_own_def proposeGroup_preCommit_def split: option.splits prod.splits)
  then show ?thesis
    using preCommit_events(1)[OF c] rollback_events by blast
qed

text \<open>
  C7. Root wrapping: \<^verbatim>\<open>processConfig\<close> on a root group \<open>G\<close> is \<^verbatim>\<open>proposeGroup\<close> on an anonymous
  node (empty path, no values, no policies) whose only sub-group is \<open>G\<close> under
  \<^verbatim>\<open>RootGroupKey\<close>, with the two proposers of the initializer; every call that takes a
  transaction context receives \<open>G\<close> itself; and once the initializer's proposers have
  returned the handlers \<open>hc\<close> and \<open>pc\<close> for the one declared name, the calls that follow are
  those of \<^verbatim>\<open>proposeGroup\<close> for \<open>G\<close> as the child named \<^verbatim>\<open>RootGroupKey\<close> with \<open>hc\<close> and \<open>pc\<close>: the
  values and policies of \<open>G\<close> go to the child's handlers, and what the root adds afterwards
  is its \<^verbatim>\<open>PreCommit\<close> cascade or a rollback only.
\<close>

theorem processConfig_root_wrapping:
  "processConfig env RootGroupKey cm G s =
     proposeGroup env G [] \<lparr>group = ConfigGroup [(RootGroupKey, G)] [] [], deserializedValues = Map.empty\<rparr>
       (initializer_ValueProposer cm) (initializer_PolicyProposer cm) s \<and>
   list_all (\<lambda>e. eventTx e = None \<or> eventTx e = Some G)
     (snd (snd (processConfig env RootGroupKey cm G s))) \<and>
   (BeginValueProposals env (initializer_ValueProposer cm) G [RootGroupKey] s = (Inr (d, [hc]), s1) \<longrightarrow>
    BeginPolicyProposals env (initializer_PolicyProposer cm) G [RootGroupKey] s1 = (Inr [pc], s2) \<longrightarrow>
    (\<exists>rest. snd (snd (processConfig env RootGroupKey cm G s)) =
        [Call_BeginValueProposals (initializer_ValueProposer cm) G [RootGroupKey] None,
         Call_BeginPolicyProposals (initializer_PolicyProposer cm) G [RootGroupKey] None] @
        snd (snd (proposeGroup env G (''/'' @ RootGroupKey) (newConfigGroupWrapper G) hc pc s2)) @ rest \<and>
        list_all (\<lambda>e. isPreCommit e \<or> isRollback e) rest))"
proof (intro conjI impI)
  let ?w = "\<lparr>group = ConfigGroup [(RootGroupKey, G)] [] [], deserializedValues = Map.empty\<rparr>"
  let ?vp = "initializer_ValueProposer cm" and ?pp = "initializer_PolicyProposer cm"
  show eq: "processConfig env RootGroupKey cm G s = proposeGroup env G [] ?w ?vp ?pp s"
    by (auto simp: processConfig_def helperGroup_eq newConfigGroupWrapper_def
        split: prod.splits sum.splits)
  obtain x s' es where run: "proposeGroup env G [] ?w ?vp ?pp s = (x, s', es)"
    by (metis prod_cases3)
  show "list_all (\<lambda>e. eventTx e = None \<or> eventTx e = Some G)
     (snd (snd (processConfig env RootGroupKey cm G s)))"
    unfolding eq run using propose_events(1)[OF run] by (auto simp: list_all_iff)
  assume v: "BeginValueProposals env ?vp G [RootGroupKey] s = (Inr (d, [hc]), s1)"
    and p: "BeginPolicyProposals env ?pp G [RootGroupKey] s1 = (Inr [pc], s2)"
  obtain c s3 es1 where child:
    "proposeGroup env G ([] @ ''/'' @ RootGroupKey) (newConfigGroupWrapper G) hc pc s2 = (c, s3, es1)"
    by (metis prod_cases3)
  let ?begun = "[Call_BeginValueProposals ?vp G [RootGroupKey] None,
                 Call_BeginPolicyProposals ?pp G [RootGroupKey] None]"
  have "\<exists>rest. es = ?begun @ es1 @ rest \<and> list_all (\<lambda>e. isPreCommit e \<or> isRollback e) rest"
    using run
  proof (cases rule: proposeGroup_cases)
    case (failSub d' hs s1' phs s2' err es3)
    with v p have sub: "proposeGroup_subGroups env G [] [(RootGroupKey, G)] [hc] [pc]
        (ConfigResult G ?vp ?pp []) s2 = (Inl err, s', es3)"
      by simp
    from root_rest[OF sub child] failSub(7) show ?thesis
      by (auto simp: list_all_iff)
  next
    case (own d' hs s1' phs s2' result s3' es3 es4)
    with v p have sub: "proposeGroup_subGroups env G [] [(RootGroupKey, G)] [hc] [pc]
        (ConfigResult G ?vp ?pp []) s2 = (Inr result, s3', es3)"
      by simp
    from root_rest[OF sub child] obtain rest where
      rest: "es3 = es1 @ rest" "\<forall>e\<in>set rest. isRollback e"
      by blast
    have "\<forall>e\<in>set es4. isPreCommit e \<or> isRollback e"
      using own_empty[OF _ _ own(6)] by simp
    with own(7) rest show ?thesis
      by (intro exI[of _ "rest @ es4"]) (auto simp: list_all_iff)
  qed (use v p in auto)
  then show "\<exists>rest. snd (snd (processConfig env RootGroupKey cm G s)) =
        ?begun @ snd (snd (proposeGroup env G (''/'' @ RootGroupKey) (newConfigGroupWrapper G) hc pc s2)) @ rest \<and>
        list_all (\<lambda>e. isPreCommit e \<or> isRollback e) rest"
    unfolding eq run using child by simp
qed

theorem processConfig_root_wrapping_witness:
  "processConfig accepting ''Channel'' exampleManager leafGroup 0 =
     proposeGroup accepting leafGroup []
       \<lparr>group = ConfigGroup [(''Channel'', leafGroup)] [] [], deserializedValues = Map.empty\<rparr>
       (initializer_ValueProposer exampleManager) (initializer_PolicyProposer exampleManager) 0 \<and>
   list_all (\<lambda>e. eventTx e = None \<or> eventTx e = Some leafGroup)
     (snd (snd (processConfig accepting ''Channel'' exampleManager leafGroup 0))) \<and>
   BeginValueProposals accepting (initializer_ValueProposer exampleManager) leafGroup [''Channel''] 0
     = (Inr (1, [11]), 1) \<and>
   BeginPolicyProposals accepting (initializer_PolicyProposer exampleManager) leafGroup [''Channel''] 1
     = (Inr [21], 2) \<and>
   (\<exists>rest. snd (snd (processConfig accepting ''Channel'' exampleManager leafGroup 0)) =
        [Call_BeginValueProposals (initializer_ValueProposer exampleManager) leafGroup [''Channel''] None,
         Call_BeginPolicyProposals (initializer_PolicyProposer exampleManager) leafGroup [''Channel''] None] @
        snd (snd (proposeGroup accepting leafGroup (''/'' @ ''Channel'')
                    (newConfigGroupWrapper leafGroup) 11 21 2)) @ rest \<and>
        list_all (\<lambda>e. isPreCommit e \<or> isRollback e) rest)"
proof -
  have v: "BeginValueProposals accepting (initializer_ValueProposer exampleManager) leafGroup
             [''Channel''] 0 = (Inr (1, [11]), 1)"
    by (simp add: accepting_def exampleManager_def)
  have p: "BeginPolicyProposals accepting (initializer_PolicyProposer exampleManager) leafGroup
             [''Channel''] 1 = (Inr [21], 2)"
    by (simp add: accepting_def exampleManager_def)
  from processConfig_root_wrapping[of accepting "''Channel''" exampleManager leafGroup 0 1 11 1 21 2]
    v p show ?thesis by blast
qed

section \<open>Partial failure among siblings\<close>

lemma rollback_eq: "rollback env r s = (fst (rollback env r s), postOrder ownRollback r)"
  using rollback_calls(1)[of env r s] by (simp add: prod_eq_iff)

text \<open>
  C2. Partial-failure cleanup: at a node with the sub-groups \<open>a\<close>, \<open>b\<close>, \<open>c\<close>, enumerated in
  this order, where the proposals of \<open>a\<close> and \<open>b\<close> succeed with the results \<open>ra\<close> and \<open>rb\<close> and
  the proposal of \<open>c\<close> fails with \<open>err\<close>, \<^verbatim>\<open>proposeGroup\<close> returns \<open>err\<close> and no result, and
  after the calls of the three proposals it makes exactly the calls of the rollback of the
  result in progress: the rollback cascade of \<open>ra\<close>, that of \<open>rb\<close>, each ending with the
  sub-group's own two handlers, then \<^verbatim>\<open>RollbackProposals\<close> on the node's own two handlers.
  Nothing is rolled back for \<open>c\<close> by the parent, the calls of the two successful proposals
  contain no rollback, and no \<^verbatim>\<open>CommitProposals\<close> call is made at all.
\<close>

theorem proposeGroup_partial_failure:
  assumes "Groups (group w) = [(a, ga), (b, gb), (c, gc)]"
    and "BeginValueProposals env h t [a, b, c] s = (Inr (d, [ha, hb, hc]), s1)"
    and "BeginPolicyProposals env ph t [a, b, c] s1 = (Inr [pa, pb, pc], s2)"
    and "proposeGroup env t (name @ ''/'' @ a) (newConfigGroupWrapper ga) ha pa s2 = (Inr ra, s3, ea)"
    and "proposeGroup env t (name @ ''/'' @ b) (newConfigGroupWrapper gb) hb pb s3 = (Inr rb, s4, eb)"
    and "proposeGroup env t (name @ ''/'' @ c) (newConfigGroupWrapper gc) hc pc s4 = (Inl err, s5, ec)"
  shows "proposeGroup env t name w h ph s =
           (Inl err, fst (rollback env (ConfigResult t h ph [ra, rb]) s5),
            [Call_BeginValueProposals h t [a, b, c] None,
             Call_BeginPolicyProposals ph t [a, b, c] None] @ ea @ eb @ ec @
            postOrder ownRollback ra @ postOrder ownRollback rb @
            [Call_RollbackProposals h t, Call_RollbackProposals ph t]) \<and>
         postOrder ownRollback ra =
           concat (map (postOrder ownRollback) (subResults ra)) @
           [Call_RollbackProposals ha t, Call_RollbackProposals pa t] \<and>
         postOrder ownRollback rb =
           concat (map (postOrder ownRollback) (subResults rb)) @
           [Call_RollbackProposals hb t, Call_RollbackProposals pb t] \<and>
         filter isRollback (ea @ eb) = [] \<and>
         filter isCommit (snd (snd (proposeGroup env t name w h ph s))) = []"
proof -
  let ?es = "[Call_BeginValueProposals h t [a, b, c] None,
             Call_BeginPolicyProposals ph t [a, b, c] None] @ ea @ eb @ ec @
            postOrder ownRollback ra @ postOrder ownRollback rb @
            [Call_RollbackProposals h t, Call_RollbackProposals ph t]"
  have names: "map fst (Groups (group w)) = [a, b, c]"
    using assms(1) by simp
  define s6 where "s6 = fst (rollback env (ConfigResult t h ph [ra, rb]) s5)"
  have rolled: "rollback env (ConfigResult t h ph [ra, rb]) s5
              = (s6, postOrder ownRollback (ConfigResult t h ph [ra, rb]))"
    unfolding s6_def by (rule rollback_eq)
  have loop: "proposeGroup_subGroups env t name [(a, ga), (b, gb), (c, gc)] [ha, hb, hc] [pa, pb, pc]
                (ConfigResult t h ph []) s2
              = (Inl err, s6, ea @ eb @ ec @ postOrder ownRollback (ConfigResult t h ph [ra, rb]))"
    using assms(4,5,6) rolled
    by (simp add: proposeGroup_subGroups.simps del: rollback.simps postOrder.simps)
  have run: "proposeGroup env t name w h ph s = (Inl err, s6, ?es)"
    using assms(2,3) loop
    by (simp add: proposeGroup.simps[of env t name w h ph s] assms(1) ownRollback_def Let_def
        del: rollback.simps)
  note sa = propose_success(1)[OF assms(4)] and sb = propose_success(1)[OF assms(5)]
  have ra: "postOrder ownRollback ra =
           concat (map (postOrder ownRollback) (subResults ra)) @
           [Call_RollbackProposals ha t, Call_RollbackProposals pa t]"
    using sa by (cases ra) (simp add: ownRollback_def)
  have rb: "postOrder ownRollback rb =
           concat (map (postOrder ownRollback) (subResults rb)) @
           [Call_RollbackProposals hb t, Call_RollbackProposals pb t]"
    using sb by (cases rb) (simp add: ownRollback_def)
  have nr: "filter isRollback (ea @ eb) = []"
    using sa sb by (auto simp: filter_empty_conv)
  have nc: "filter isCommit (snd (snd (proposeGroup env t name w h ph s))) = []"
    using propose_events(1)[OF run] unfolding run by (auto simp: filter_empty_conv)
  from run ra rb nr nc show ?thesis unfolding s6_def by blast
qed

theorem proposeGroup_partial_failure_witness:
  "proposeGroup failingPreCommit threeGroups ''/Channel'' (newConfigGroupWrapper threeGroups) 11 21 2 =
     (Inl (CollaboratorError ''inconsistent''), 27,
      [Call_BeginValueProposals 11 threeGroups [''A'', ''B'', ''C''] None,
       Call_BeginPolicyProposals 21 threeGroups [''A'', ''B'', ''C''] None,
       Call_BeginValueProposals 111 threeGroups [] None,
       Call_BeginPolicyProposals 211 threeGroups [] None,
       Call_Deserialize 111 ''v'' ''x'' None,
       Call_ProposePolicy 211 threeGroups ''p'' (ConfigPolicy ''y'') None,
       Call_PreCommit 111 threeGroups None,
       Call_BeginValueProposals 112 threeGroups [] None,
       Call_BeginPolicyProposals 212 threeGroups [] None,
       Call_Deserialize 112 ''v'' ''x'' None,
       Call_ProposePolicy 212 threeGroups ''p'' (ConfigPolicy ''y'') None,
       Call_PreCommit 112 threeGroups None,
       Call_BeginValueProposals 113 threeGroups [] None,
       Call_BeginPolicyProposals 213 threeGroups [] None,
       Call_Deserialize 113 ''v'' ''x'' None,
       Call_ProposePolicy 213 threeGroups ''p'' (ConfigPolicy ''y'') None,
       Call_PreCommit 113 threeGroups (Some (CollaboratorError ''inconsistent'')),
       Call_RollbackProposals 113 threeGroups,
       Call_RollbackProposals 213 threeGroups,
       Call_RollbackProposals 111 threeGroups,
       Call_RollbackProposals 211 threeGroups,
       Call_RollbackProposals 112 threeGroups,
       Call_RollbackProposals 212 threeGroups,
       Call_RollbackProposals 11 threeGroups,
       Call_RollbackProposals 21 threeGroups]) \<and>
   filter isCommit (snd (snd (proposeGroup failingPreCommit threeGroups ''/Channel''
     (newConfigGroupWrapper threeGroups) 11 21 2))) = []"
proof -
  let ?A = "[Call_BeginValueProposals 111 threeGroups [] None,
       Call_BeginPolicyProposals 211 threeGroups [] None,
       Call_Deserialize 111 ''v'' ''x'' None,
       Call_ProposePolicy 211 threeGroups ''p'' (ConfigPolicy ''y'') None,
       Call_PreCommit 111 threeGroups None]"
  let ?B = "[Call_BeginValueProposals 112 threeGroups [] None,
       Call_BeginPolicyProposals 212 threeGroups [] None,
       Call_Deserialize 112 ''v'' ''x'' None,
       Call_ProposePolicy 212 threeGroups ''p'' (ConfigPolicy ''y'') None,
       Call_PreCommit 112 threeGroups None]"
  let ?C = "[Call_BeginValueProposals 113 threeGroups [] None,
       Call_BeginPolicyProposals 213 threeGroups [] None,
       Call_Deserialize 113 ''v'' ''x'' None,
       Call_ProposePolicy 213 threeGroups ''p'' (ConfigPolicy ''y'') None,
       Call_PreCommit 113 threeGroups (Some (CollaboratorError ''inconsistent'')),
       Call_RollbackProposals 113 threeGroups,
       Call_RollbackProposals 213 threeGroups]"
  have g: "Groups (group (newConfigGroupWrapper threeGroups))
           = [(''A'', leafGroup), (''B'', leafGroup), (''C'', leafGroup)]"
    by (simp add: newConfigGroupWrapper_def threeGroups_def)
  have v: "BeginValueProposals failingPreCommit 11 threeGroups [''A'', ''B'', ''C''] 2
           = (Inr (11, [111, 112, 113]), 3)"
    by (simp add: failingPreCommit_def accepting_def)
  have p: "BeginPolicyProposals failingPreCommit 21 threeGroups [''A'', ''B'', ''C''] 3
           = (Inr [211, 212, 213], 4)"
    by (simp add: failingPreCommit_def accepting_def)
  have a: "proposeGroup failingPreCommit threeGroups (''/Channel'' @ ''/'' @ ''A'')
             (newConfigGroupWrapper leafGroup) 111 211 4
           = (Inr (ConfigResult threeGroups 111 211 []), 9, ?A)"
    by (simp add: example_defs)
  have b: "proposeGroup failingPreCommit threeGroups (''/Channel'' @ ''/'' @ ''B'')
             (newConfigGroupWrapper leafGroup) 112 212 9
           = (Inr (ConfigResult threeGroups 112 212 []), 14, ?B)"
    by (simp add: example_defs)
  have c: "proposeGroup failingPreCommit threeGroups (''/Channel'' @ ''/'' @ ''C'')
             (newConfigGroupWrapper leafGroup) 113 213 14
           = (Inl (CollaboratorError ''inconsistent''), 21, ?C)"
    by (simp add: example_defs)
  from proposeGroup_partial_failure[OF g v p a b c] show ?thesis
    by (simp add: ownRollback_def failingPreCommit_def accepting_def)
qed

section \<open>Failures after the Begin calls\<close>

lemma preCommit_not_rollback: "isPreCommit e \<Longrightarrow> \<not> isRollback e"
  by (cases e) auto

lemma result_collapse:
  "ConfigResult (tx result) (handler result) (policyHandler result) (subResults result) = result"
  by (cases result) simp

lemma subGroups_failure:
  "proposeGroup_subGroups env t name gs hs phs result s = (Inl err, s', es) \<Longrightarrow>
   length hs = length gs \<Longrightarrow> length phs = length gs \<Longrightarrow>
   \<exists>pre ce rs n g hc pc s0 s0'.
     es = pre @ ce @ postOrder ownRollback
            (ConfigResult (tx result) (handler result) (policyHandler result) (subResults result @ rs)) \<and>
     (\<forall>e\<in>set pre. \<not> isRollback e) \<and> (n, g) \<in> set gs \<and>
     proposeGroup env t (name @ ''/'' @ n) (newConfigGroupWrapper g) hc pc s0 = (Inl err, s0', ce)"
proof (induction gs arbitrary: hs phs result s es)
  case Nil
  then show ?case by (simp add: proposeGroup_subGroups.simps)
next
  case (Cons ng rest)
  obtain n g where ng: "ng = (n, g)" by (cases ng)
  from Cons.prems(1)[unfolded ng] show ?case
  proof (cases rule: subGroups_Cons_cases)
    case panic
    with Cons.prems(2,3) show ?thesis by auto
  next
    case (failChild hc hs' pc phs' err' s1 es1)
    then have "es = [] @ es1 @ postOrder ownRollback
        (ConfigResult (tx result) (handler result) (policyHandler result) (subResults result @ []))"
      by (simp add: result_collapse)
    moreover have "(n, g) \<in> set (ng # rest)" using ng by simp
    moreover have "proposeGroup env t (name @ ''/'' @ n) (newConfigGroupWrapper g) hc pc s = (Inl err, s1, es1)"
      using failChild by simp
    ultimately show ?thesis by (metis empty_iff empty_set)
  next
    case (okChild hc hs' pc phs' sub s1 es1 es2)
    let ?result = "ConfigResult (tx result) (handler result) (policyHandler result) (subResults result @ [sub])"
    have len: "length hs' = length rest" "length phs' = length rest"
      using okChild(1,2) Cons.prems(2,3) by simp_all
    from Cons.IH[OF okChild(4) len] obtain pre ce rs n' g' hc' pc' s0 s0' where
      ih: "es2 = pre @ ce @ postOrder ownRollback
            (ConfigResult (tx ?result) (handler ?result) (policyHandler ?result) (subResults ?result @ rs))"
        "\<forall>e\<in>set pre. \<not> isRollback e" "(n', g') \<in> set rest"
        "proposeGroup env t (name @ ''/'' @ n') (newConfigGroupWrapper g') hc' pc' s0 = (Inl err, s0', ce)"
      by blast
    have nr: "\<forall>e\<in>set es1. \<not> isRollback e"
      using propose_success(1)[OF okChild(3)] by blast
    have "es = (es1 @ pre) @ ce @ postOrder ownRollback
        (ConfigResult (tx result) (handler result) (policyHandler result) (subResults result @ (sub # rs)))"
      using okChild(5) ih(1) by simp
    moreover have "\<forall>e\<in>set (es1 @ pre). \<not> isRollback e" using nr ih(2) by auto
    moreover have "(n', g') \<in> set (ng # rest)" using ih(3) by simp
    ultimately show ?thesis using ih(4) by blast
  qed
qed

text \<open>
  C10. At a node where both \<^verbatim>\<open>Begin\<close> calls succeeded (with handler lists of the declared
  length), whenever \<^verbatim>\<open>proposeGroup\<close> returns an error and no result, whichever later step
  failed, the calls of the run end with the rollback of the result in progress: the
  rollback cascades of the sub-results \<open>rs\<close> built so far, then one \<^verbatim>\<open>RollbackProposals\<close> on
  the node's own value handler and one on its own policy handler, as the last two calls.
  Before that rollback (in \<open>body\<close>) no rollback call is made, except those that a failing
  sub-group's own \<^verbatim>\<open>proposeGroup\<close> call made before it returned the error. Nothing is
  assumed about the node's values and policies.
\<close>

theorem proposeGroup_failure_rolls_back_self:
  assumes "BeginValueProposals env h t (map fst (Groups (group w))) s = (Inr (d, hs), s1)"
    and "BeginPolicyProposals env ph t (map fst (Groups (group w))) s1 = (Inr phs, s2)"
    and "length hs = length (Groups (group w))" and "length phs = length (Groups (group w))"
    and "proposeGroup env t name w h ph s = (Inl err, s', es)"
  shows "\<exists>body rs.
           es = [Call_BeginValueProposals h t (map fst (Groups (group w))) None,
                 Call_BeginPolicyProposals ph t (map fst (Groups (group w))) None] @ body @
                concat (map (postOrder ownRollback) rs) @
                [Call_RollbackProposals h t, Call_RollbackProposals ph t] \<and>
           (filter isRollback body = [] \<or>
            (\<exists>n g hc pc s0 s0' ce. (n, g) \<in> set (Groups (group w)) \<and>
               proposeGroup env t (name @ ''/'' @ n) (newConfigGroupWrapper g) hc pc s0 = (Inl err, s0', ce) \<and>
               filter isRollback body = filter isRollback ce))"
  using assms(5)
proof (cases rule: proposeGroup_cases)
  case (failValue err')
  with assms(1) show ?thesis by simp
next
  case (failPolicy d' hs' s1' err')
  with assms(1,2) show ?thesis by simp
next
  case (mismatch d' hs' s1' phs')
  with assms(1-4) show ?thesis by auto
next
  case (failSub d' hs' s1' phs' s2' err' es3)
  then have sub: "proposeGroup_subGroups env t name (Groups (group w)) hs' phs'
      (ConfigResult t h ph []) s2' = (Inl err, s', es3)"
    by simp
  from subGroups_failure[OF sub failSub(3,4)] obtain pre ce rs n g hc pc s0 s0' where
    f: "es3 = pre @ ce @ postOrder ownRollback (ConfigResult t h ph rs)"
      "\<forall>e\<in>set pre. \<not> isRollback e" "(n, g) \<in> set (Groups (group w))"
      "proposeGroup env t (name @ ''/'' @ n) (newConfigGroupWrapper g) hc pc s0 = (Inl err, s0', ce)"
    by auto
  have "filter isRollback pre = []"
    using f(2) by (simp add: filter_empty_conv)
  then have "filter isRollback (pre @ ce) = filter isRollback ce" by simp
  moreover have "es = [Call_BeginValueProposals h t (map fst (Groups (group w))) None,
                 Call_BeginPolicyProposals ph t (map fst (Groups (group w))) None] @ (pre @ ce) @
                concat (map (postOrder ownRollback) rs) @
                [Call_RollbackProposals h t, Call_RollbackProposals ph t]"
    using failSub(7) f(1) by (simp add: ownRollback_def)
  ultimately show ?thesis using f(3,4) by blast
next
  case (own d' hs' s1' phs' s2' result s3 es3 es4)
  from propose_success(2)[OF own(5)] obtain rs where
    rs: "result = ConfigResult t h ph rs" "\<forall>e\<in>set es3. \<not> isRollback e"
    by auto
  from own(6) show ?thesis
  proof (cases rule: proposeGroup_own_cases)
    case (fail err' pre)
    have "\<forall>e\<in>set pre. \<not> isRollback e"
      using fail(3) leaf_not_others preCommit_not_rollback by blast
    with rs(2) have "filter isRollback (es3 @ pre) = []"
      by (auto simp: filter_empty_conv)
    moreover have "es = [Call_BeginValueProposals h t (map fst (Groups (group w))) None,
                 Call_BeginPolicyProposals ph t (map fst (Groups (group w))) None] @ (es3 @ pre) @
                concat (map (postOrder ownRollback) rs) @
                [Call_RollbackProposals h t, Call_RollbackProposals ph t]"
      using own(7) fail(2) rs(1) by (simp add: ownRollback_def)
    ultimately show ?thesis by blast
  qed simp
qed

theorem proposeGroup_failure_rolls_back_self_witness:
  "BeginValueProposals refusingPolicy 1 badLeaf
     (map fst (Groups (group (newConfigGroupWrapper (helperGroup ''Channel'' badLeaf))))) 0
     = (Inr (1, [11]), 1) \<and>
   BeginPolicyProposals refusingPolicy 2 badLeaf
     (map fst (Groups (group (newConfigGroupWrapper (helperGroup ''Channel'' badLeaf))))) 1
     = (Inr [21], 2) \<and>
   proposeGroup refusingPolicy badLeaf [] (newConfigGroupWrapper (helperGroup ''Channel'' badLeaf)) 1 2 0
     = (Inl (CollaboratorError ''bad policy''), 9,
        [Call_BeginValueProposals 1 badLeaf [''Channel''] None,
         Call_BeginPolicyProposals 2 badLeaf [''Channel''] None,
         Call_BeginValueProposals 11 badLeaf [] None,
         Call_BeginPolicyProposals 21 badLeaf [] None,
         Call_ProposePolicy 21 badLeaf ''bad'' (ConfigPolicy ''y'') (Some (CollaboratorError ''bad policy'')),
         Call_RollbackProposals 11 badLeaf, Call_RollbackProposals 21 badLeaf,
         Call_RollbackProposals 1 badLeaf, Call_RollbackProposals 2 badLeaf]) \<and>
   (\<exists>body rs.
      [Call_BeginValueProposals 1 badLeaf [''Channel''] None,
       Call_BeginPolicyProposals 2 badLeaf [''Channel''] None,
       Call_BeginValueProposals 11 badLeaf [] None,
       Call_BeginPolicyProposals 21 badLeaf [] None,
       Call_ProposePolicy 21 badLeaf ''bad'' (ConfigPolicy ''y'') (Some (CollaboratorError ''bad policy'')),
       Call_RollbackProposals 11 badLeaf, Call_RollbackProposals 21 badLeaf,
       Call_RollbackProposals 1 badLeaf, Call_RollbackProposals 2 badLeaf]
      = [Call_BeginValueProposals 1 badLeaf
           (map fst (Groups (group (newConfigGroupWrapper (helperGroup ''Channel'' badLeaf))))) None,
         Call_BeginPolicyProposals 2 badLeaf
           (map fst (Groups (group (newConfigGroupWrapper (helperGroup ''Channel'' badLeaf))))) None] @
        body @ concat (map (postOrder ownRollback) rs) @
        [Call_RollbackProposals 1 badLeaf, Call_RollbackProposals 2 badLeaf] \<and>
      (filter isRollback body = [] \<or>
       (\<exists>n g hc pc s0 s0' ce.
          (n, g) \<in> set (Groups (group (newConfigGroupWrapper (helperGroup ''Channel'' badLeaf)))) \<and>
          proposeGroup refusingPolicy badLeaf ([] @ ''/'' @ n) (newConfigGroupWrapper g) hc pc s0
            = (Inl (CollaboratorError ''bad policy''), s0', ce) \<and>
          filter isRollback body = filter isRollback ce)))"
proof -
  let ?w = "newConfigGroupWrapper (helperGroup ''Channel'' badLeaf)"
  have v: "BeginValueProposals refusingPolicy 1 badLeaf (map fst (Groups (group ?w))) 0
           = (Inr (1, [11]), 1)"
    by (simp add: example_defs)
  have p: "BeginPolicyProposals refusingPolicy 2 badLeaf (map fst (Groups (group ?w))) 1
           = (Inr [21], 2)"
    by (simp add: example_defs)
  have l: "length [11 :: nat] = length (Groups (group ?w))"
    "length [21 :: nat] = length (Groups (group ?w))"
    by (simp_all add: example_defs)
  have run: "proposeGroup refusingPolicy badLeaf [] ?w 1 2 0
     = (Inl (CollaboratorError ''bad policy''), 9,
        [Call_BeginValueProposals 1 badLeaf [''Channel''] None,
         Call_BeginPolicyProposals 2 badLeaf [''Channel''] None,
         Call_BeginValueProposals 11 badLeaf [] None,
         Call_BeginPolicyProposals 21 badLeaf [] None,
         Call_ProposePolicy 21 badLeaf ''bad'' (ConfigPolicy ''y'') (Some (CollaboratorError ''bad policy'')),
         Call_RollbackProposals 11 badLeaf, Call_RollbackProposals 21 badLeaf,
         Call_RollbackProposals 1 badLeaf, Call_RollbackProposals 2 badLeaf])"
    by (simp add: example_defs)
  from proposeGroup_failure_rolls_back_self[OF v p l run] v p run show ?thesis
    by blast
qed

section \<open>How errors propagate\<close>

lemma propose_name_irrelevant:
  "proposeGroup env t name w h ph s = proposeGroup env t name' w h ph s"
  "proposeGroup_subGroups env t name gs hs phs result s
     = proposeGroup_subGroups env t name' gs hs phs result s"
proof (induction env t name w h ph s and env t name gs hs phs result s
       arbitrary: name' and name' rule: propose_induct)
  case (group env t name w h ph s)
  show ?case
    unfolding proposeGroup.simps[of env t name] proposeGroup.simps[of env t name']
    using group.IH[where name' = name']
    by (auto simp: Let_def split: prod.splits sum.splits)
next
  case (nil env t name hs phs result s)
  show ?case by (simp add: proposeGroup_subGroups.simps)
next
  case (cons env t name n g rest hc hs pc phs result s)
  have c: "proposeGroup env t (name @ ''/'' @ n) (newConfigGroupWrapper g) hc pc s
         = proposeGroup env t (name' @ ''/'' @ n) (newConfigGroupWrapper g) hc pc s"
    by (rule cons.IH(1))
  show ?case
    unfolding proposeGroup_subGroups.simps(2)[of env t name]
      proposeGroup_subGroups.simps(2)[of env t name'] list.case prod.case c
    using cons.IH(2)[unfolded c, where name' = name']
    by (auto split: prod.splits sum.splits)
next
  case (short env t name n g rest hs phs result s)
  then show ?case
    by (auto simp: proposeGroup_subGroups.simps split: list.splits)
qed

lemma propose_error_origin:
  "proposeGroup env t name w h ph s = (Inl err, s', es) \<Longrightarrow>
     (\<exists>a b c. err = ProgrammingError a b c) \<or> Some err \<in> returnedError ` set es"
  "proposeGroup_subGroups env t name gs hs phs result s = (Inl err, s', es) \<Longrightarrow>
     length hs = length gs \<Longrightarrow> length phs = length gs \<Longrightarrow>
     (\<exists>a b c. err = ProgrammingError a b c) \<or> Some err \<in> returnedError ` set es"
proof (induction env t name w h ph s and env t name gs hs phs result s
       arbitrary: s' es and s' es rule: propose_induct)
  case (group env t name w h ph s)
  from group.prems show ?case
  proof (cases rule: proposeGroup_cases)
    case (failSub d hs s1 phs s2 err' es3)
    with group.IH[OF failSub(1,2,3,4) _ failSub(3,4)] show ?thesis by auto
  next
    case (own d hs s1 phs s2 result s3 es3 es4)
    from own(6) show ?thesis
    proof (cases rule: proposeGroup_own_cases)
      case (fail err' pre)
      with own(7) show ?thesis by auto
    qed simp
  qed auto
next
  case (nil env t name hs phs result s)
  then show ?case by (simp add: proposeGroup_subGroups.simps)
next
  case (cons env t name n g rest hc hs pc phs result s)
  from cons.prems(1) show ?case
  proof (cases rule: subGroups_Cons_cases)
    case (failChild hc' hs' pc' phs' err' s1 es1)
    with cons.IH(1)[of s1 es1] show ?thesis by auto
  next
    case (okChild hc' hs' pc' phs' sub s1 es1 es2)
    with cons.IH(2)[of sub s1 es1 s' es2] cons.prems(2,3) show ?thesis by auto
  qed simp
next
  case (short env t name n g rest hs phs result s)
  then show ?case by auto
qed

text \<open>
  C9, as the code has it. \<^verbatim>\<open>proposeGroup\<close> returns errors as they are (\<^verbatim>\<open>return nil, err\<close>): an
  error it returns is either the one it builds for mismatching handler lists, at this node
  or at a descendant, or exactly the error value some collaborator call of the run
  returned. Nothing about the path is added: the path \<open>name\<close> has no influence on what is
  returned. The calls of a failing \<^verbatim>\<open>proposeGroup\<close> end with \<^verbatim>\<open>RollbackProposals\<close> on its own two
  handlers, unless the failure is one of its own \<^verbatim>\<open>Begin\<close> calls or its length check, where
  nothing has been built and no rollback is made at that level.
\<close>

theorem proposeGroup_error_unchanged:
  assumes "proposeGroup env t name w h ph s = (Inl err, s', es)"
  shows "((\<exists>a b c. err = ProgrammingError a b c) \<or> Some err \<in> returnedError ` set es) \<and>
         proposeGroup env t name' w h ph s = (Inl err, s', es) \<and>
         ((\<exists>pre. es = pre @ [Call_RollbackProposals h t, Call_RollbackProposals ph t]) \<or>
          es = [Call_BeginValueProposals h t (map fst (Groups (group w))) (Some err)] \<or>
          es = [Call_BeginValueProposals h t (map fst (Groups (group w))) None,
                Call_BeginPolicyProposals ph t (map fst (Groups (group w))) (Some err)] \<or>
          es = [Call_BeginValueProposals h t (map fst (Groups (group w))) None,
                Call_BeginPolicyProposals ph t (map fst (Groups (group w))) None])"
proof (intro conjI)
  show "(\<exists>a b c. err = ProgrammingError a b c) \<or> Some err \<in> returnedError ` set es"
    using assms by (rule propose_error_origin(1))
  show "proposeGroup env t name' w h ph s = (Inl err, s', es)"
    using assms propose_name_irrelevant(1)[of env t name' w h ph s name] by simp
  from assms show "(\<exists>pre. es = pre @ [Call_RollbackProposals h t, Call_RollbackProposals ph t]) \<or>
          es = [Call_BeginValueProposals h t (map fst (Groups (group w))) (Some err)] \<or>
          es = [Call_BeginValueProposals h t (map fst (Groups (group w))) None,
                Call_BeginPolicyProposals ph t (map fst (Groups (group w))) (Some err)] \<or>
          es = [Call_BeginValueProposals h t (map fst (Groups (group w))) None,
                Call_BeginPolicyProposals ph t (map fst (Groups (group w))) None]"
  proof (cases rule: proposeGroup_cases)
    case (failSub d hs s1 phs s2 err' es3)
    then have sub: "proposeGroup_subGroups env t name (Groups (group w)) hs phs
        (ConfigResult t h ph []) s2 = (Inl err, s', es3)"
      by simp
    from subGroups_failure[OF sub failSub(3,4)] obtain pre ce rs where
      "es3 = pre @ ce @ postOrder ownRollback (ConfigResult t h ph rs)"
      by auto
    with failSub(7) have "es = ([Call_BeginValueProposals h t (map fst (Groups (group w))) None,
         Call_BeginPolicyProposals ph t (map fst (Groups (group w))) None] @ pre @ ce @
         concat (map (postOrder ownRollback) rs)) @
         [Call_RollbackProposals h t, Call_RollbackProposals ph t]"
      by (simp add: ownRollback_def)
    then show ?thesis by blast
  next
    case (own d hs s1 phs s2 result s3 es3 es4)
    from propose_success(2)[OF own(5)] obtain rs where rs: "result = ConfigResult t h ph rs"
      by auto
    from own(6) show ?thesis
    proof (cases rule: proposeGroup_own_cases)
      case (fail err' pre)
      with own(7) rs have "es = ([Call_BeginValueProposals h t (map fst (Groups (group w))) None,
         Call_BeginPolicyProposals ph t (map fst (Groups (group w))) None] @ es3 @ pre @
         concat (map (postOrder ownRollback) rs)) @
         [Call_RollbackProposals h t, Call_RollbackProposals ph t]"
        by (simp add: ownRollback_def)
      then show ?thesis by blast
    qed simp
  qed auto
qed

definition badInA :: configGroup where
  "badInA = ConfigGroup [(''A'', badLeaf), (''B'', leafGroup)] [] []"

definition badInB :: configGroup where
  "badInB = ConfigGroup [(''A'', leafGroup), (''B'', badLeaf)] [] []"

theorem proposeGroup_error_unchanged_witness:
  "proposeGroup refusingPolicy badInA ''/Channel'' (newConfigGroupWrapper badInA) 11 21 2
     = (Inl (CollaboratorError ''bad policy''), 11,
        [Call_BeginValueProposals 11 badInA [''A'', ''B''] None,
         Call_BeginPolicyProposals 21 badInA [''A'', ''B''] None,
         Call_BeginValueProposals 111 badInA [] None,
         Call_BeginPolicyProposals 211 badInA [] None,
         Call_ProposePolicy 211 badInA ''bad'' (ConfigPolicy ''y'') (Some (CollaboratorError ''bad policy'')),
         Call_RollbackProposals 111 badInA, Call_RollbackProposals 211 badInA,
         Call_RollbackProposals 11 badInA, Call_RollbackProposals 21 badInA]) \<and>
   proposeGroup refusingPolicy badInA ''elsewhere'' (newConfigGroupWrapper badInA) 11 21 2
     = (Inl (CollaboratorError ''bad policy''), 11,
        [Call_BeginValueProposals 11 badInA [''A'', ''B''] None,
         Call_BeginPolicyProposals 21 badInA [''A'', ''B''] None,
         Call_BeginValueProposals 111 badInA [] None,
         Call_BeginPolicyProposals 211 badInA [] None,
         Call_ProposePolicy 211 badInA ''bad'' (ConfigPolicy ''y'') (Some (CollaboratorError ''bad policy'')),
         Call_RollbackProposals 111 badInA, Call_RollbackProposals 211 badInA,
         Call_RollbackProposals 11 badInA, Call_RollbackProposals 21 badInA])"
proof -
  have run: "proposeGroup refusingPolicy badInA ''/Channel'' (newConfigGroupWrapper badInA) 11 21 2
     = (Inl (CollaboratorError ''bad policy''), 11,
        [Call_BeginValueProposals 11 badInA [''A'', ''B''] None,
         Call_BeginPolicyProposals 21 badInA [''A'', ''B''] None,
         Call_BeginValueProposals 111 badInA [] None,
         Call_BeginPolicyProposals 211 badInA [] None,
         Call_ProposePolicy 211 badInA ''bad'' (ConfigPolicy ''y'') (Some (CollaboratorError ''bad policy'')),
         Call_RollbackProposals 111 badInA, Call_RollbackProposals 211 badInA,
         Call_RollbackProposals 11 badInA, Call_RollbackProposals 21 badInA])"
    by (simp add: example_defs badInA_def)
  from proposeGroup_error_unchanged[OF run, of "''elsewhere''"] run show ?thesis
    by blast
qed

text \<open>
  C9 as stated fails: whether the refused policy sits in the sub-group \<open>A\<close> or in the
  sub-group \<open>B\<close>, \<^verbatim>\<open>processConfig\<close> returns the same error value, the collaborator's own; it
  does not say which group failed.
\<close>

theorem error_path_context_counterexample:
  "fst (processConfig refusingPolicy ''Channel'' exampleManager badInA 0)
     = Inl (CollaboratorError ''bad policy'') \<and>
   fst (processConfig refusingPolicy ''Channel'' exampleManager badInB 0)
     = Inl (CollaboratorError ''bad policy'')"
  by (simp add: example_defs badInA_def badInB_def)

section \<open>Order of enumeration\<close>

text \<open>
  A run that enumerates the sub-groups of every group in another order: \<open>\<pi>\<close> rearranges
  the entries of each \<^verbatim>\<open>Groups\<close> map, at every level of the tree.
\<close>

fun enumerateWith ::
    "((string \<times> configGroup) list \<Rightarrow> (string \<times> configGroup) list) \<Rightarrow> configGroup \<Rightarrow> configGroup"
where
  "enumerateWith \<pi> (ConfigGroup gs vs ps) =
     ConfigGroup (\<pi> (map (\<lambda>x. (fst x, enumerateWith \<pi> (snd x))) gs)) vs ps"

text \<open>
  Collaborators whose answers do not depend on their state, and whose \<^verbatim>\<open>Begin\<close> calls are
  aligned by name: the deserializer depends on the handler only, the handler returned
  for a declared name on the handler and that name only, and whether the call succeeds
  does not depend on the order of the names.
\<close>

definition statelessOutcomes :: "('s, 'tx) collaborators \<Rightarrow> bool" where
  "statelessOutcomes env \<longleftrightarrow>
     (\<forall>h t ns s s'. fst (BeginValueProposals env h t ns s) = fst (BeginValueProposals env h t ns s')) \<and>
     (\<forall>h t ns s s'. fst (BeginPolicyProposals env h t ns s) = fst (BeginPolicyProposals env h t ns s')) \<and>
     (\<forall>d k v s s'. fst (Deserialize env d k v s) = fst (Deserialize env d k v s')) \<and>
     (\<forall>h t k p s s'. fst (ProposePolicy env h t k p s) = fst (ProposePolicy env h t k p s')) \<and>
     (\<forall>h t s s'. fst (PreCommit env h t s) = fst (PreCommit env h t s'))"

definition nameAligned ::
    "('s, 'tx) collaborators \<Rightarrow> (handlerRef \<Rightarrow> string \<Rightarrow> handlerRef) \<Rightarrow>
     (handlerRef \<Rightarrow> string \<Rightarrow> handlerRef) \<Rightarrow> (handlerRef \<Rightarrow> deserializerRef) \<Rightarrow> bool"
where
  "nameAligned env cv cp ds \<longleftrightarrow>
     (\<forall>h t ns s d hs. fst (BeginValueProposals env h t ns s) = Inr (d, hs) \<longrightarrow>
        d = ds h \<and> hs = map (cv h) ns) \<and>
     (\<forall>h t ns s hs. fst (BeginPolicyProposals env h t ns s) = Inr hs \<longrightarrow> hs = map (cp h) ns) \<and>
     (\<forall>h t ns ns' s. mset ns = mset ns' \<longrightarrow>
        isl (fst (BeginValueProposals env h t ns s)) = isl (fst (BeginValueProposals env h t ns' s))) \<and>
     (\<forall>h t ns ns' s. mset ns = mset ns' \<longrightarrow>
        isl (fst (BeginPolicyProposals env h t ns s)) = isl (fst (BeginPolicyProposals env h t ns' s)))"

text \<open>
  For such collaborators, whether a group is accepted, and what is proposed when it is,
  can be read off the tree: \<open>valid\<close> and \<open>leaves\<close>. \<open>s0\<close> is any state.
\<close>

fun valid ::
    "('s, 'tx) collaborators \<Rightarrow> (handlerRef \<Rightarrow> string \<Rightarrow> handlerRef) \<Rightarrow>
     (handlerRef \<Rightarrow> string \<Rightarrow> handlerRef) \<Rightarrow> (handlerRef \<Rightarrow> deserializerRef) \<Rightarrow>
     'tx \<Rightarrow> 's \<Rightarrow> configGroup \<Rightarrow> handlerRef \<Rightarrow> handlerRef \<Rightarrow> bool"
where
  "valid env cv cp ds t s0 (ConfigGroup gs vs ps) h ph \<longleftrightarrow>
     \<not> isl (fst (BeginValueProposals env h t (map fst gs) s0)) \<and>
     \<not> isl (fst (BeginPolicyProposals env ph t (map fst gs) s0)) \<and>
     list_all (\<lambda>x. valid env cv cp ds t s0 (snd x) (cv h (fst x)) (cp ph (fst x))) gs \<and>
     list_all (\<lambda>x. \<not> isl (fst (Deserialize env (ds h) (fst x) (Value (snd x)) s0))) vs \<and>
     list_all (\<lambda>x. fst (ProposePolicy env ph t (fst x) (snd x) s0) = None) ps \<and>
     fst (PreCommit env h t s0) = None"

fun leaves ::
    "(handlerRef \<Rightarrow> string \<Rightarrow> handlerRef) \<Rightarrow> (handlerRef \<Rightarrow> string \<Rightarrow> handlerRef) \<Rightarrow>
     (handlerRef \<Rightarrow> deserializerRef) \<Rightarrow> 'tx \<Rightarrow> configGroup \<Rightarrow> handlerRef \<Rightarrow> handlerRef \<Rightarrow>
     'tx event multiset"
where
  "leaves cv cp ds t (ConfigGroup gs vs ps) h ph =
     sum_list (map (\<lambda>x. leaves cv cp ds t (snd x) (cv h (fst x)) (cp ph (fst x))) gs) +
     mset (map (\<lambda>x. Call_Deserialize (ds h) (fst x) (Value (snd x)) None) vs) +
     mset (map (\<lambda>x. Call_ProposePolicy ph t (fst x) (snd x) None) ps)"

fun preOK :: "('s, 'tx) collaborators \<Rightarrow> 's \<Rightarrow> 'tx configResult \<Rightarrow> bool" where
  "preOK env s0 (ConfigResult t h p subs) \<longleftrightarrow>
     fst (PreCommit env h t s0) = None \<and> list_all (preOK env s0) subs"

lemma stateless_PreCommit:
  "statelessOutcomes env \<Longrightarrow> PreCommit env h t s = (x, s') \<Longrightarrow> fst (PreCommit env h t s0) = x"
  unfolding statelessOutcomes_def by (metis fst_conv)

lemma stateless_Deserialize:
  "statelessOutcomes env \<Longrightarrow> Deserialize env d k v s = (x, s') \<Longrightarrow> fst (Deserialize env d k v s0) = x"
  unfolding statelessOutcomes_def by (metis fst_conv)

lemma stateless_ProposePolicy:
  "statelessOutcomes env \<Longrightarrow> ProposePolicy env h t k p s = (x, s') \<Longrightarrow>
     fst (ProposePolicy env h t k p s0) = x"
  unfolding statelessOutcomes_def by (metis fst_conv)

lemma stateless_BeginValueProposals:
  "statelessOutcomes env \<Longrightarrow> BeginValueProposals env h t ns s = (x, s') \<Longrightarrow>
     fst (BeginValueProposals env h t ns s0) = x"
  unfolding statelessOutcomes_def by (metis fst_conv)

lemma stateless_BeginPolicyProposals:
  "statelessOutcomes env \<Longrightarrow> BeginPolicyProposals env h t ns s = (x, s') \<Longrightarrow>
     fst (BeginPolicyProposals env h t ns s0) = x"
  unfolding statelessOutcomes_def by (metis fst_conv)

lemma preCommit_valid:
  assumes "statelessOutcomes env"
  shows "preCommit env r s = (x, s', es) \<Longrightarrow> (x = None) = preOK env s0 r"
    and "preCommit_subResults env rs s = (x, s', es) \<Longrightarrow> (x = None) = list_all (preOK env s0) rs"
  using assms
proof (induction env r s and env rs s arbitrary: x s' es and x s' es
       rule: preCommit_preCommit_subResults.induct)
  case (1 env t h p subs s)
  obtain y s1 es1 where sub: "preCommit_subResults env subs s = (y, s1, es1)"
    by (metis prod_cases3)
  note ih = "1.IH"[OF sub "1.prems"(2)]
  show ?case
  proof (cases y)
    case None
    obtain r s2 where pc: "PreCommit env h t s1 = (r, s2)" by (cases "PreCommit env h t s1")
    from "1.prems"(1) sub None pc have "x = r" by simp
    with stateless_PreCommit[OF "1.prems"(2) pc, of s0] ih None show ?thesis by simp
  next
    case (Some err)
    with "1.prems"(1) sub have "x = Some err" by simp
    with ih Some show ?thesis by simp
  qed
next
  case (2 env s)
  then show ?case by simp
next
  case (3 env subResult rest s)
  obtain y s1 es1 where c: "preCommit env subResult s = (y, s1, es1)"
    by (metis prod_cases3)
  note ih1 = "3.IH"(1)[OF c "3.prems"(2)]
  show ?case
  proof (cases y)
    case None
    obtain z s2 es2 where r: "preCommit_subResults env rest s1 = (z, s2, es2)"
      by (metis prod_cases3)
    note ih2 = "3.IH"(2)[OF c[symmetric] None refl r "3.prems"(2)]
    from "3.prems"(1) c None r have "x = z" by simp
    with ih1 ih2 None show ?thesis by simp
  next
    case (Some err)
    with "3.prems"(1) c have "x = Some err" by simp
    with ih1 Some show ?thesis by simp
  qed
qed

lemma values_valid:
  assumes "statelessOutcomes env"
  shows "proposeGroup_values env d vs result w s = (x, s', es) \<Longrightarrow>
     isl x = (\<not> list_all (\<lambda>x. \<not> isl (fst (Deserialize env d (fst x) (Value (snd x)) s0))) vs) \<and>
     (\<not> isl x \<longrightarrow> es = map (\<lambda>x. Call_Deserialize d (fst x) (Value (snd x)) None) vs)"
  using assms
proof (induction env d vs result w s arbitrary: x s' es rule: proposeGroup_values.induct)
  case (1 env valueDeserializer result w s)
  then show ?case by auto
next
  case (2 env d key val rest result w s)
  obtain y s1 where y: "Deserialize env d key (Value val) s = (y, s1)"
    by (cases "Deserialize env d key (Value val) s")
  note st = stateless_Deserialize[OF "2.prems"(2) y, of s0]
  show ?case
  proof (cases y)
    case (Inl err)
    with "2.prems"(1) y have "x = Inl err" by (auto split: prod.splits)
    with st Inl show ?thesis by simp
  next
    case (Inr msg)
    with "2.prems"(1) y obtain es2 where
      r: "proposeGroup_values env d rest result
            (w\<lparr>deserializedValues := (deserializedValues w)(key \<mapsto> msg)\<rparr>) s1 = (x, s', es2)"
      and es: "es = Call_Deserialize d key (Value val) None # es2"
      by (auto split: prod.splits)
    from "2.IH"[OF y[symmetric] Inr r "2.prems"(2)] st Inr es show ?thesis by simp
  qed
qed

lemma policies_valid:
  assumes "statelessOutcomes env"
  shows "proposeGroup_policies env t ph ps result s = (x, s', es) \<Longrightarrow>
     (x = None) = list_all (\<lambda>x. fst (ProposePolicy env ph t (fst x) (snd x) s0) = None) ps \<and>
     (x = None \<longrightarrow> es = map (\<lambda>x. Call_ProposePolicy ph t (fst x) (snd x) None) ps)"
  using assms
proof (induction env t ph ps result s arbitrary: x s' es rule: proposeGroup_policies.induct)
  case (1 env t ph result s)
  then show ?case by auto
next
  case (2 env t ph key policy rest result s)
  obtain y s1 where y: "ProposePolicy env ph t key policy s = (y, s1)"
    by (cases "ProposePolicy env ph t key policy s")
  note st = stateless_ProposePolicy[OF "2.prems"(2) y, of s0]
  show ?case
  proof (cases y)
    case (Some err)
    with "2.prems"(1) y have "x = Some err" by (auto split: prod.splits)
    with st Some show ?thesis by simp
  next
    case None
    with "2.prems"(1) y obtain es2 where
      r: "proposeGroup_policies env t ph rest result s1 = (x, s', es2)"
      and es: "es = Call_ProposePolicy ph t key policy None # es2"
      by (auto split: prod.splits)
    from "2.IH"[OF y[symmetric] None r "2.prems"(2)] st None es show ?thesis by simp
  qed
qed

lemma filter_leaf_deserialize:
  "filter isLeafProposal (map (\<lambda>x. Call_Deserialize d (fst x) (Value (snd x)) None) vs)
     = map (\<lambda>x. Call_Deserialize d (fst x) (Value (snd x)) None) vs"
  by (induction vs) auto

lemma filter_leaf_policy:
  "filter isLeafProposal (map (\<lambda>x. Call_ProposePolicy ph t (fst x) (snd x) None) ps)
     = map (\<lambda>x. Call_ProposePolicy ph t (fst x) (snd x) None) ps"
  by (induction ps) auto

lemma filter_leaf_cascade: "filter isLeafProposal (postOrder ownPreCommit r) = []"
  using postOrder_ownPreCommit_events[of _ r] by (auto simp: filter_empty_conv dest: leaf_not_others)

lemma own_valid:
  assumes st: "statelessOutcomes env"
    and run: "proposeGroup_own env t w d ph (ConfigResult t h ph rs) s = (x, s', es)"
    and subs: "list_all (preOK env s0) rs"
  shows "isl x =
           (\<not> (list_all (\<lambda>x. \<not> isl (fst (Deserialize env d (fst x) (Value (snd x)) s0))) (Values (group w)) \<and>
               list_all (\<lambda>x. fst (ProposePolicy env ph t (fst x) (snd x) s0) = None) (Policies (group w)) \<and>
               fst (PreCommit env h t s0) = None)) \<and>
         (\<not> isl x \<longrightarrow> x = Inr (ConfigResult t h ph rs) \<and>
            mset (filter isLeafProposal es) =
              mset (map (\<lambda>x. Call_Deserialize d (fst x) (Value (snd x)) None) (Values (group w))) +
              mset (map (\<lambda>x. Call_ProposePolicy ph t (fst x) (snd x) None) (Policies (group w))))"
proof -
  let ?result = "ConfigResult t h ph rs"
  obtain v s1 es1 where v: "proposeGroup_values env d (Values (group w)) ?result w s = (v, s1, es1)"
    by (metis prod_cases3)
  note vv = values_valid[OF st v, of s0]
  show ?thesis
  proof (cases v)
    case (Inl err)
    with run v have "x = Inl err" by (simp add: proposeGroup_own_def)
    with vv Inl show ?thesis by simp
  next
    case (Inr w1)
    obtain p s2 es2 where p: "proposeGroup_policies env t ph (Policies (group w)) ?result s1 = (p, s2, es2)"
      by (metis prod_cases3)
    note pv = policies_valid[OF st p, of s0]
    show ?thesis
    proof (cases p)
      case (Some err)
      with run v Inr p have "x = Inl err" by (simp add: proposeGroup_own_def)
      with pv Some show ?thesis by simp
    next
      case None
      obtain c s3 es3 where c: "preCommit env ?result s2 = (c, s3, es3)"
        by (metis prod_cases3)
      note cv = preCommit_valid(1)[OF st c, of s0]
      show ?thesis
      proof (cases c)
        case (Some err)
        with run v Inr p \<open>p = None\<close> c have "x = Inl err"
          by (simp add: proposeGroup_own_def proposeGroup_preCommit_def split: prod.splits)
        with cv Some subs show ?thesis by simp
      next
        case None
        with run v Inr p \<open>p = None\<close> c have x: "x = Inr ?result" "es = es1 @ es2 @ es3"
          by (simp_all add: proposeGroup_own_def proposeGroup_preCommit_def)
        have "es3 = postOrder ownPreCommit ?result"
          using preCommit_ok(1)[OF c[unfolded None]] .
        then have "filter isLeafProposal es3 = []" by (simp only: filter_leaf_cascade)
        with x vv pv cv Inr \<open>p = None\<close> None subs show ?thesis
          by (simp add: filter_leaf_deserialize filter_leaf_policy)
      qed
    qed
  qed
qed

lemma valid_sel:
  "valid env cv cp ds t s0 g h ph \<longleftrightarrow>
     \<not> isl (fst (BeginValueProposals env h t (map fst (Groups g)) s0)) \<and>
     \<not> isl (fst (BeginPolicyProposals env ph t (map fst (Groups g)) s0)) \<and>
     list_all (\<lambda>x. valid env cv cp ds t s0 (snd x) (cv h (fst x)) (cp ph (fst x))) (Groups g) \<and>
     list_all (\<lambda>x. \<not> isl (fst (Deserialize env (ds h) (fst x) (Value (snd x)) s0))) (Values g) \<and>
     list_all (\<lambda>x. fst (ProposePolicy env ph t (fst x) (snd x) s0) = None) (Policies g) \<and>
     fst (PreCommit env h t s0) = None"
  by (cases g) simp

lemma leaves_sel:
  "leaves cv cp ds t g h ph =
     sum_list (map (\<lambda>x. leaves cv cp ds t (snd x) (cv h (fst x)) (cp ph (fst x))) (Groups g)) +
     mset (map (\<lambda>x. Call_Deserialize (ds h) (fst x) (Value (snd x)) None) (Values g)) +
     mset (map (\<lambda>x. Call_ProposePolicy ph t (fst x) (snd x) None) (Policies g))"
  by (cases g) simp

lemma aligned_values:
  "nameAligned env cv cp ds \<Longrightarrow> BeginValueProposals env h t ns s = (Inr (d, hs), s1) \<Longrightarrow>
     d = ds h \<and> hs = map (cv h) ns"
  unfolding nameAligned_def by (metis fst_conv)

lemma aligned_policies:
  "nameAligned env cv cp ds \<Longrightarrow> BeginPolicyProposals env h t ns s = (Inr hs, s1) \<Longrightarrow>
     hs = map (cp h) ns"
  unfolding nameAligned_def by (metis fst_conv)

lemma propose_valid:
  assumes "statelessOutcomes env" and "nameAligned env cv cp ds"
  shows "proposeGroup env t name w h ph s = (x, s', es) \<Longrightarrow>
           isl x = (\<not> valid env cv cp ds t s0 (group w) h ph) \<and>
           (\<not> isl x \<longrightarrow> (\<exists>r. x = Inr r \<and> preOK env s0 r) \<and>
              mset (filter isLeafProposal es) = leaves cv cp ds t (group w) h ph)"
    and "proposeGroup_subGroups env t name gs hs phs result s = (x, s', es) \<Longrightarrow>
         hs = map (cv h0) (map fst gs) \<Longrightarrow> phs = map (cp ph0) (map fst gs) \<Longrightarrow>
           isl x = (\<not> list_all (\<lambda>x. valid env cv cp ds t s0 (snd x) (cv h0 (fst x)) (cp ph0 (fst x))) gs) \<and>
           (\<not> isl x \<longrightarrow>
              (\<exists>rs. x = Inr (ConfigResult (tx result) (handler result) (policyHandler result)
                               (subResults result @ rs)) \<and> list_all (preOK env s0) rs) \<and>
              mset (filter isLeafProposal es) =
                sum_list (map (\<lambda>x. leaves cv cp ds t (snd x) (cv h0 (fst x)) (cp ph0 (fst x))) gs))"
  using assms
proof (induction env t name w h ph s and env t name gs hs phs result s
       arbitrary: x s' es and x s' es h0 ph0 rule: propose_induct)
  case (group env t name w h ph s)
  note st = group.prems(2) and al = group.prems(3)
  let ?names = "map fst (Groups (group w))"
  from group.prems(1) show ?case
  proof (cases rule: proposeGroup_cases)
    case (failValue err)
    from stateless_BeginValueProposals[OF st failValue(1), of s0] failValue(2)
    show ?thesis by (simp add: valid_sel[of _ _ _ _ _ _ "group w"])
  next
    case (failPolicy d hs s1 err)
    from stateless_BeginPolicyProposals[OF st failPolicy(2), of s0] failPolicy(3)
    show ?thesis by (simp add: valid_sel[of _ _ _ _ _ _ "group w"])
  next
    case (mismatch d hs s1 phs)
    from aligned_values[OF al mismatch(1)] aligned_policies[OF al mismatch(2)] mismatch(3)
    show ?thesis by simp
  next
    case (failSub d hs s1 phs s2 err es3)
    have hs: "hs = map (cv h) ?names" using aligned_values[OF al failSub(1)] by simp
    have phs: "phs = map (cp ph) ?names" using aligned_policies[OF al failSub(2)] by simp
    from group.IH[OF failSub(1-5) hs phs st al] failSub(6)
    show ?thesis by (simp add: valid_sel[of _ _ _ _ _ _ "group w"])
  next
    case (own d hs s1 phs s2 result s3 es3 es4)
    have d: "d = ds h" and hs: "hs = map (cv h) ?names"
      using aligned_values[OF al own(1)] by simp_all
    have phs: "phs = map (cp ph) ?names" using aligned_policies[OF al own(2)] by simp
    from group.IH[OF own(1-5) hs phs st al] obtain rs where
      kids: "list_all (\<lambda>x. valid env cv cp ds t s0 (snd x) (cv h (fst x)) (cp ph (fst x))) (Groups (group w))"
      and rs: "result = ConfigResult t h ph rs" "list_all (preOK env s0) rs"
      and l3: "mset (filter isLeafProposal es3) =
                sum_list (map (\<lambda>x. leaves cv cp ds t (snd x) (cv h (fst x)) (cp ph (fst x))) (Groups (group w)))"
      by auto
    note ov = own_valid[OF st own(6)[unfolded rs(1)] rs(2)]
    have bv: "\<not> isl (fst (BeginValueProposals env h t ?names s0))"
      using stateless_BeginValueProposals[OF st own(1), of s0] by simp
    have bp: "\<not> isl (fst (BeginPolicyProposals env ph t ?names s0))"
      using stateless_BeginPolicyProposals[OF st own(2), of s0] by simp
    have 1: "isl x = (\<not> valid env cv cp ds t s0 (group w) h ph)"
      using ov bv bp kids d by (simp add: valid_sel[of _ _ _ _ _ _ "group w"])
    have 2: "(\<exists>r. x = Inr r \<and> preOK env s0 r) \<and>
              mset (filter isLeafProposal es) = leaves cv cp ds t (group w) h ph" if "\<not> isl x"
    proof -
      from that ov have x: "x = Inr (ConfigResult t h ph rs)" 
        and l4: "mset (filter isLeafProposal es4) =
              mset (map (\<lambda>x. Call_Deserialize d (fst x) (Value (snd x)) None) (Values (group w))) +
              mset (map (\<lambda>x. Call_ProposePolicy ph t (fst x) (snd x) None) (Policies (group w)))"
        and pc: "fst (PreCommit env h t s0) = None"
        by simp_all
      have "preOK env s0 (ConfigResult t h ph rs)" using pc rs(2) by simp
      moreover have "mset (filter isLeafProposal es) = leaves cv cp ds t (group w) h ph"
        using own(7) l3 l4 d by (simp add: leaves_sel[of _ _ _ _ "group w"])
      ultimately show ?thesis using x by blast
    qed
    from 1 2 show ?thesis by blast
  qed
next
  case (nil env t name hs phs result s)
  have "result = ConfigResult (tx result) (handler result) (policyHandler result)
          (subResults result @ []) \<and> list_all (preOK env s0) []"
    by (simp add: result_collapse)
  then have "\<exists>rs. result = ConfigResult (tx result) (handler result) (policyHandler result)
          (subResults result @ rs) \<and> list_all (preOK env s0) rs"
    by (rule exI)
  with nil show ?case by (auto simp: proposeGroup_subGroups.simps)
next
  case (cons env t name n g rest hc hs pc phs result s)
  note st = cons.prems(4) and al = cons.prems(5)
  from cons.prems(2,3) have refs: "hc = cv h0 n" "hs = map (cv h0) (map fst rest)"
    "pc = cp ph0 n" "phs = map (cp ph0) (map fst rest)"
    by simp_all
  from cons.prems(1) show ?case
  proof (cases rule: subGroups_Cons_cases)
    case (failChild hc' hs' pc' phs' err s1 es1)
    then have c: "proposeGroup env t (name @ ''/'' @ n) (newConfigGroupWrapper g) hc pc s = (Inl err, s1, es1)"
      by simp
    from cons.IH(1)[OF c st al] failChild(4) refs
    show ?thesis by (simp add: newConfigGroupWrapper_def)
  next
    case (okChild hc' hs' pc' phs' sub s1 es1 es2)
    then have c: "proposeGroup env t (name @ ''/'' @ n) (newConfigGroupWrapper g) hc pc s = (Inr sub, s1, es1)"
      and r: "proposeGroup_subGroups env t name rest hs phs
         (ConfigResult (tx result) (handler result) (policyHandler result) (subResults result @ [sub])) s1
         = (x, s', es2)"
      by simp_all
    note ih1 = cons.IH(1)[OF c st al]
    note ih2 = cons.IH(2)[OF c r refs(2,4) st al]
    from ih1 have v1: "valid env cv cp ds t s0 g (cv h0 n) (cp ph0 n)" "preOK env s0 sub"
      and l1: "mset (filter isLeafProposal es1) = leaves cv cp ds t g (cv h0 n) (cp ph0 n)"
      using refs by (simp_all add: newConfigGroupWrapper_def)
    have 1: "isl x = (\<not> list_all (\<lambda>x. valid env cv cp ds t s0 (snd x) (cv h0 (fst x)) (cp ph0 (fst x)))
                          ((n, g) # rest))"
      using ih2 v1(1) by simp
    have 2: "(\<exists>rs. x = Inr (ConfigResult (tx result) (handler result) (policyHandler result)
                               (subResults result @ rs)) \<and> list_all (preOK env s0) rs) \<and>
              mset (filter isLeafProposal es) =
                sum_list (map (\<lambda>x. leaves cv cp ds t (snd x) (cv h0 (fst x)) (cp ph0 (fst x)))
                   ((n, g) # rest))" if "\<not> isl x"
    proof -
      from that ih2 obtain rs where
        x: "x = Inr (ConfigResult (tx result) (handler result) (policyHandler result)
                       (subResults result @ sub # rs))" "list_all (preOK env s0) rs"
        and l2: "mset (filter isLeafProposal es2) =
                sum_list (map (\<lambda>x. leaves cv cp ds t (snd x) (cv h0 (fst x)) (cp ph0 (fst x))) rest)"
        by auto
      have "list_all (preOK env s0) (sub # rs)" using v1(2) x(2) by simp
      moreover have "mset (filter isLeafProposal es) =
                sum_list (map (\<lambda>x. leaves cv cp ds t (snd x) (cv h0 (fst x)) (cp ph0 (fst x)))
                   ((n, g) # rest))"
        using okChild(5) l1 l2 by simp
      ultimately show ?thesis using x(1) by blast
    qed
    from 1 2 show ?thesis by blast
  qed (use cons.prems in simp)
next
  case (short env t name n g rest hs phs result s)
  then show ?case by auto
qed

lemma list_all_perm: "mset xs = mset ys \<Longrightarrow> list_all P xs = list_all P ys"
  by (auto simp: list_all_iff dest: mset_eq_setD)

lemma sum_list_perm:
  "mset xs = mset ys \<Longrightarrow> sum_list (map f xs) = (sum_list (map f ys) :: 'a multiset)"
proof -
  assume "mset xs = mset ys"
  then have "mset (map f xs) = mset (map f ys)" by (metis mset_map)
  then have "sum_mset (mset (map f xs)) = sum_mset (mset (map f ys))" by simp
  then show ?thesis by (simp only: sum_mset_sum_list)
qed

lemma aligned_perm_values:
  "nameAligned env cv cp ds \<Longrightarrow> mset ns = mset ns' \<Longrightarrow>
     isl (fst (BeginValueProposals env h t ns s)) = isl (fst (BeginValueProposals env h t ns' s))"
  unfolding nameAligned_def by blast

lemma aligned_perm_policies:
  "nameAligned env cv cp ds \<Longrightarrow> mset ns = mset ns' \<Longrightarrow>
     isl (fst (BeginPolicyProposals env h t ns s)) = isl (fst (BeginPolicyProposals env h t ns' s))"
  unfolding nameAligned_def by blast

lemma enumerateWith_invariant:
  assumes al: "nameAligned env cv cp ds" and perm: "\<forall>xs. mset (\<pi> xs) = mset xs"
  shows "valid env cv cp ds t s0 (enumerateWith \<pi> g) h ph = valid env cv cp ds t s0 g h ph \<and>
         leaves cv cp ds t (enumerateWith \<pi> g) h ph = leaves cv cp ds t g h ph"
proof (induction g arbitrary: h ph)
  case (ConfigGroup gs vs ps)
  let ?gs1 = "map (\<lambda>x. (fst x, enumerateWith \<pi> (snd x))) gs"
  have ih: "valid env cv cp ds t s0 (enumerateWith \<pi> (snd x)) h' ph' = valid env cv cp ds t s0 (snd x) h' ph' \<and>
            leaves cv cp ds t (enumerateWith \<pi> (snd x)) h' ph' = leaves cv cp ds t (snd x) h' ph'"
    if "x \<in> set gs" for x h' ph'
    using ConfigGroup.IH[OF that, of "snd x" h' ph'] by (cases x) simp
  have m: "mset (\<pi> ?gs1) = mset ?gs1" using perm by blast
  have names: "mset (map fst (\<pi> ?gs1)) = mset (map fst gs)"
  proof -
    have e: "map fst ?gs1 = map fst gs" by (simp add: comp_def)
    have "mset (map fst (\<pi> ?gs1)) = image_mset fst (mset (\<pi> ?gs1))"
      by (simp only: mset_map)
    also have "\<dots> = image_mset fst (mset ?gs1)" by (simp only: m)
    also have "\<dots> = mset (map fst ?gs1)" by (simp only: mset_map)
    also have "\<dots> = mset (map fst gs)" by (simp only: e)
    finally show ?thesis .
  qed
  have kids: "list_all (\<lambda>x. valid env cv cp ds t s0 (snd x) (cv h (fst x)) (cp ph (fst x))) (\<pi> ?gs1)
            = list_all (\<lambda>x. valid env cv cp ds t s0 (snd x) (cv h (fst x)) (cp ph (fst x))) gs"
  proof -
    have "list_all (\<lambda>x. valid env cv cp ds t s0 (snd x) (cv h (fst x)) (cp ph (fst x))) (\<pi> ?gs1)
        = list_all (\<lambda>x. valid env cv cp ds t s0 (snd x) (cv h (fst x)) (cp ph (fst x))) ?gs1"
      by (rule list_all_perm[OF m])
    also have "\<dots> = list_all (\<lambda>x. valid env cv cp ds t s0 (snd x) (cv h (fst x)) (cp ph (fst x))) gs"
      using ih by (simp add: list_all_iff)
    finally show ?thesis .
  qed
  have sums: "sum_list (map (\<lambda>x. leaves cv cp ds t (snd x) (cv h (fst x)) (cp ph (fst x))) (\<pi> ?gs1))
            = sum_list (map (\<lambda>x. leaves cv cp ds t (snd x) (cv h (fst x)) (cp ph (fst x))) gs)"
  proof -
    have "sum_list (map (\<lambda>x. leaves cv cp ds t (snd x) (cv h (fst x)) (cp ph (fst x))) (\<pi> ?gs1))
        = sum_list (map (\<lambda>x. leaves cv cp ds t (snd x) (cv h (fst x)) (cp ph (fst x))) ?gs1)"
      by (rule sum_list_perm[OF m])
    also have "\<dots> = sum_list (map (\<lambda>x. leaves cv cp ds t (enumerateWith \<pi> (snd x))
                                        (cv h (fst x)) (cp ph (fst x))) gs)"
      by (simp add: comp_def)
    also have "\<dots> = sum_list (map (\<lambda>x. leaves cv cp ds t (snd x) (cv h (fst x)) (cp ph (fst x))) gs)"
      by (rule sum_list_cong_mset) (simp add: ih)
    finally show ?thesis .
  qed
  show ?case
    using aligned_perm_values[OF al names, of h t s0] aligned_perm_policies[OF al names, of ph t s0]
      kids sums
    by simp
qed

lemma permutes_singleton: "\<forall>xs. mset (\<pi> xs) = mset xs \<Longrightarrow> \<pi> [x] = [x]"
proof -
  assume "\<forall>xs. mset (\<pi> xs) = mset xs"
  then have "mset (\<pi> [x]) = {#x#}" by simp
  then show ?thesis by (simp add: mset_single_iff_right)
qed

lemma helperGroup_enumerateWith:
  "\<forall>xs. mset (\<pi> xs) = mset xs \<Longrightarrow>
     helperGroup RootGroupKey (enumerateWith \<pi> G) = enumerateWith \<pi> (helperGroup RootGroupKey G)"
  by (simp add: helperGroup_eq permutes_singleton)

lemma processConfig_proposeGroup:
  "processConfig env RootGroupKey cm G s =
     proposeGroup env G [] (newConfigGroupWrapper (helperGroup RootGroupKey G))
       (initializer_ValueProposer cm) (initializer_PolicyProposer cm) s"
  by (auto simp: processConfig_def split: prod.splits sum.splits)

lemma order_independent_runs:
  assumes st: "statelessOutcomes env" and al: "nameAligned env cv cp ds"
    and perm: "\<forall>xs. mset (\<pi> xs) = mset xs"
  shows "isl (fst (proposeGroup env t name (newConfigGroupWrapper g) h ph s)) =
         isl (fst (proposeGroup env t name' (newConfigGroupWrapper (enumerateWith \<pi> g)) h ph s')) \<and>
         (\<not> isl (fst (proposeGroup env t name (newConfigGroupWrapper g) h ph s)) \<longrightarrow>
            mset (filter isLeafProposal (snd (snd (proposeGroup env t name (newConfigGroupWrapper g) h ph s)))) =
            mset (filter isLeafProposal
                   (snd (snd (proposeGroup env t name' (newConfigGroupWrapper (enumerateWith \<pi> g)) h ph s')))))"
proof -
  obtain x s1 es where r1: "proposeGroup env t name (newConfigGroupWrapper g) h ph s = (x, s1, es)"
    by (metis prod_cases3)
  obtain x' s1' es' where
    r2: "proposeGroup env t name' (newConfigGroupWrapper (enumerateWith \<pi> g)) h ph s' = (x', s1', es')"
    by (metis prod_cases3)
  note v1 = propose_valid(1)[OF st al r1, of s]
  note v2 = propose_valid(1)[OF st al r2, of s]
  note inv = enumerateWith_invariant[OF al perm, of t s g h ph]
  from v1 v2 inv show ?thesis
    unfolding r1 r2 by (simp add: newConfigGroupWrapper_def)
qed

text \<open>
  Whether a run accepted, and the leaf proposals (\<^verbatim>\<open>Deserialize\<close> and \<^verbatim>\<open>ProposePolicy\<close> calls)
  it made, as a multiset.
\<close>

definition accepted :: "(error + 'r) \<times> 's \<times> 'tx event list \<Rightarrow> bool" where
  "accepted run \<longleftrightarrow> \<not> isl (fst run)"

definition proposedLeaves :: "(error + 'r) \<times> 's \<times> 'tx event list \<Rightarrow> 'tx event multiset" where
  "proposedLeaves run = mset (filter isLeafProposal (snd (snd run)))"

text \<open>
  Example collaborators aligned by name: the handler for the sub-group named \<open>n\<close> of handler
  \<open>h\<close> is \<open>byName h n\<close>, wherever the name stands in the list. \<open>alignedRefusing\<close> refuses a
  policy under the key \<open>bad\<close>. \<open>orderSensitive\<close> keeps state: the value handler 172 fails to
  begin once more than four calls have been made. \<open>firstRefuses\<close> is positional (the
  handlers of \<open>accepting\<close>), and its policy handler 211, the one given to whichever
  sub-group comes first, refuses the key \<open>bad\<close>.
\<close>

definition byName :: "handlerRef \<Rightarrow> string \<Rightarrow> handlerRef" where
  "byName h n = 10 * h + length n"

definition alignedAccepting :: "(nat, configGroup) collaborators" where
  "alignedAccepting =
     accepting\<lparr>BeginValueProposals := (\<lambda>h t names s. (Inr (h, map (byName h) names), Suc s)),
               BeginPolicyProposals := (\<lambda>h t names s. (Inr (map (byName h) names), Suc s))\<rparr>"

definition alignedRefusing :: "(nat, configGroup) collaborators" where
  "alignedRefusing =
     alignedAccepting\<lparr>ProposePolicy :=
       (\<lambda>h t key p s. (if key = ''bad'' then Some (CollaboratorError ''bad policy'') else None, Suc s))\<rparr>"

definition orderSensitive :: "(nat, configGroup) collaborators" where
  "orderSensitive =
     alignedAccepting\<lparr>BeginValueProposals :=
       (\<lambda>h t names s. (if h = 172 \<and> 4 < s then Inl (CollaboratorError ''too late'')
                        else Inr (h, map (byName h) names), Suc s))\<rparr>"

definition firstRefuses :: "(nat, configGroup) collaborators" where
  "firstRefuses =
     accepting\<lparr>ProposePolicy :=
       (\<lambda>h t key p s. (if h = 211 \<and> key = ''bad'' then Some (CollaboratorError ''bad policy'')
                        else None, Suc s))\<rparr>"

definition twoGroups :: configGroup where
  "twoGroups = ConfigGroup [(''A'', leafGroup), (''BB'', leafGroup)] [] []"

definition badFirst :: configGroup where
  "badFirst = ConfigGroup [(''A'', badLeaf), (''BB'', leafGroup)] [] []"

lemmas order_defs =
  example_defs accepted_def proposedLeaves_def byName_def alignedAccepting_def alignedRefusing_def
  orderSensitive_def firstRefuses_def twoGroups_def badFirst_def

text \<open>
  C8, as the code has it. For collaborators whose answers do not depend on their state and
  whose \<^verbatim>\<open>Begin\<close> calls are aligned by name, two runs over the same tree that enumerate the
  sub-groups in different orders, at any level, both accept or both reject; when they
  accept, they make the same leaf proposals, in another sequence at most. This holds for
  \<^verbatim>\<open>proposeGroup\<close> at every node and for \<^verbatim>\<open>processConfig\<close>, where the second run is the same
  call with the maps of the tree enumerated as \<open>\<pi>\<close> rearranges them (the transaction
  context is the same tree object in both runs). When the runs reject, what had been
  proposed before the failure depends on the order.
\<close>

theorem order_independence:
  assumes "statelessOutcomes env" and "nameAligned env cv cp ds"
    and "\<forall>xs. mset (\<pi> xs) = mset xs"
  shows "accepted (proposeGroup env t name (newConfigGroupWrapper g) h ph s) =
         accepted (proposeGroup env t name' (newConfigGroupWrapper (enumerateWith \<pi> g)) h ph s') \<and>
         (accepted (proposeGroup env t name (newConfigGroupWrapper g) h ph s) \<longrightarrow>
            proposedLeaves (proposeGroup env t name (newConfigGroupWrapper g) h ph s) =
            proposedLeaves (proposeGroup env t name' (newConfigGroupWrapper (enumerateWith \<pi> g)) h ph s')) \<and>
         accepted (processConfig env RootGroupKey cm G s) =
         accepted (proposeGroup env G [] (newConfigGroupWrapper (helperGroup RootGroupKey (enumerateWith \<pi> G)))
                     (initializer_ValueProposer cm) (initializer_PolicyProposer cm) s') \<and>
         (accepted (processConfig env RootGroupKey cm G s) \<longrightarrow>
            proposedLeaves (processConfig env RootGroupKey cm G s) =
            proposedLeaves (proposeGroup env G [] (newConfigGroupWrapper (helperGroup RootGroupKey (enumerateWith \<pi> G)))
                     (initializer_ValueProposer cm) (initializer_PolicyProposer cm) s'))"
proof -
  note a = order_independent_runs[OF assms, of t name g h ph s name' s']
  note b = order_independent_runs[OF assms, of G "[]" "helperGroup RootGroupKey G"
      "initializer_ValueProposer cm" "initializer_PolicyProposer cm" s "[]" s']
  from a b show ?thesis
    unfolding accepted_def proposedLeaves_def processConfig_proposeGroup
      helperGroup_enumerateWith[OF assms(3)]
    by blast
qed

theorem order_independence_witness:
  "statelessOutcomes alignedAccepting \<and> nameAligned alignedAccepting byName byName (\<lambda>h. h) \<and>
   (\<forall>xs :: (string \<times> configGroup) list. mset (rev xs) = mset xs) \<and>
   accepted (processConfig alignedAccepting ''Channel'' exampleManager twoGroups 0) \<and>
   accepted (proposeGroup alignedAccepting twoGroups []
               (newConfigGroupWrapper (helperGroup ''Channel'' (enumerateWith rev twoGroups)))
               (initializer_ValueProposer exampleManager) (initializer_PolicyProposer exampleManager) 0) \<and>
   proposedLeaves (processConfig alignedAccepting ''Channel'' exampleManager twoGroups 0) =
   proposedLeaves (proposeGroup alignedAccepting twoGroups []
               (newConfigGroupWrapper (helperGroup ''Channel'' (enumerateWith rev twoGroups)))
               (initializer_ValueProposer exampleManager) (initializer_PolicyProposer exampleManager) 0) \<and>
   map calledHandler (filter isLeafProposal
     (snd (snd (processConfig alignedAccepting ''Channel'' exampleManager twoGroups 0))))
     = [171, 271, 172, 272] \<and>
   map calledHandler (filter isLeafProposal
     (snd (snd (proposeGroup alignedAccepting twoGroups []
               (newConfigGroupWrapper (helperGroup ''Channel'' (enumerateWith rev twoGroups)))
               (initializer_ValueProposer exampleManager) (initializer_PolicyProposer exampleManager) 0))))
     = [172, 272, 171, 271]"
proof -
  have st: "statelessOutcomes alignedAccepting"
    by (simp add: statelessOutcomes_def alignedAccepting_def accepting_def)
  have al: "nameAligned alignedAccepting byName byName (\<lambda>h. h)"
    by (auto simp: nameAligned_def alignedAccepting_def accepting_def)
  have perm: "\<forall>xs :: (string \<times> configGroup) list. mset (rev xs) = mset xs"
    by simp
  have acc: "accepted (processConfig alignedAccepting ''Channel'' exampleManager twoGroups 0)"
    by (simp add: order_defs)
  have l1: "map calledHandler (filter isLeafProposal
     (snd (snd (processConfig alignedAccepting ''Channel'' exampleManager twoGroups 0))))
     = [171, 271, 172, 272]"
    by (simp add: order_defs)
  have l2: "map calledHandler (filter isLeafProposal
     (snd (snd (proposeGroup alignedAccepting twoGroups []
               (newConfigGroupWrapper (helperGroup ''Channel'' (enumerateWith rev twoGroups)))
               (initializer_ValueProposer exampleManager) (initializer_PolicyProposer exampleManager) 0))))
     = [172, 272, 171, 271]"
    by (simp add: order_defs)
  from order_independence[OF st al perm, where RootGroupKey = "''Channel''" and cm = exampleManager
      and G = twoGroups and s = 0 and s' = 0]
    st al perm acc l1 l2
  show ?thesis by blast
qed

text \<open>
  C8 as stated fails. With the well-behaved collaborators \<open>alignedRefusing\<close>, the run that
  enumerates the refused sub-group first proposes one policy, the run in the reverse order
  three leaves: both reject, but not after the same proposals. With collaborators that
  keep state (\<open>orderSensitive\<close>) or hand out handlers by position (\<open>firstRefuses\<close>), one
  order is rejected and the reverse order accepted.
\<close>

theorem order_independence_counterexample:
  "\<not> accepted (processConfig alignedRefusing ''Channel'' exampleManager badFirst 0) \<and>
   \<not> accepted (proposeGroup alignedRefusing badFirst []
               (newConfigGroupWrapper (helperGroup ''Channel'' (enumerateWith rev badFirst))) 1 2 0) \<and>
   filter isLeafProposal (snd (snd (processConfig alignedRefusing ''Channel'' exampleManager badFirst 0)))
     = [Call_ProposePolicy 271 badFirst ''bad'' (ConfigPolicy ''y'') (Some (CollaboratorError ''bad policy''))] \<and>
   filter isLeafProposal (snd (snd (proposeGroup alignedRefusing badFirst []
               (newConfigGroupWrapper (helperGroup ''Channel'' (enumerateWith rev badFirst))) 1 2 0)))
     = [Call_Deserialize 172 ''v'' ''x'' None,
        Call_ProposePolicy 272 badFirst ''p'' (ConfigPolicy ''y'') None,
        Call_ProposePolicy 271 badFirst ''bad'' (ConfigPolicy ''y'') (Some (CollaboratorError ''bad policy''))] \<and>
   \<not> accepted (processConfig orderSensitive ''Channel'' exampleManager twoGroups 0) \<and>
   accepted (proposeGroup orderSensitive twoGroups []
               (newConfigGroupWrapper (helperGroup ''Channel'' (enumerateWith rev twoGroups))) 1 2 0) \<and>
   \<not> accepted (processConfig firstRefuses ''Channel'' exampleManager badFirst 0) \<and>
   accepted (proposeGroup firstRefuses badFirst []
               (newConfigGroupWrapper (helperGroup ''Channel'' (enumerateWith rev badFirst))) 1 2 0)"
  by (simp add: order_defs)

end
